theory Spec2Isabelle
  imports Main "HOL-Library.AList"
begin

section \<open>Data model of rest\_gae\<close>

text \<open>
  The REST permissions of \<^verbatim>\<open>rest_gae.py\<close>. The source keeps them as strings; a
  permissions table may hold any string, so the level read from the table stays a string
  and the four constants are the strings of the source.
\<close>

definition PERMISSION_ANYONE :: string where
  "PERMISSION_ANYONE = ''anyone''"

definition PERMISSION_LOGGED_IN_USER :: string where
  "PERMISSION_LOGGED_IN_USER = ''logged_in_user''"

definition PERMISSION_OWNER_USER :: string where
  "PERMISSION_OWNER_USER = ''owner_user''"

definition PERMISSION_ADMIN :: string where
  "PERMISSION_ADMIN = ''admin''"

text \<open>
  The second argument of \<^verbatim>\<open>get_included_properties\<close> and
  \<^verbatim>\<open>translate_property_names\<close> is one of the two strings
  \<^verbatim>\<open>'input'\<close> and \<^verbatim>\<open>'output'\<close>.
\<close>

datatype input_type = Input | Output

text \<open>
  The inner class \<^verbatim>\<open>RESTMeta\<close> of a model. Every attribute is optional in the
  source and read with \<^verbatim>\<open>getattr(meta, name, default)\<close> or tested with
  \<^verbatim>\<open>hasattr\<close>: an attribute that is not declared is \<open>None\<close> here.
\<close>

record rest_meta =
  included_input_properties :: "string list option"
  included_output_properties :: "string list option"
  included_properties :: "string list option"
  excluded_input_properties :: "string list option"
  excluded_output_properties :: "string list option"
  excluded_properties :: "string list option"
  translate_property_names :: "(string \<times> string) list option"
  translate_input_property_names :: "(string \<times> string) list option"
  translate_output_property_names :: "(string \<times> string) list option"
  use_input_id :: bool
  user_owner_property :: "string option"
  admin_property :: "string option"

text \<open>
  An NDB model class: its kind, its \<^verbatim>\<open>_properties\<close> (name and property
  descriptor, in the iteration order of the dictionary) and its \<^verbatim>\<open>RESTMeta\<close>,
  if it has one. A property descriptor has the class the source tests with
  \<^verbatim>\<open>isinstance\<close> and the flag \<^verbatim>\<open>_repeated\<close>.
\<close>

datatype prop_type =
    KeyProperty "string option"
  | DateTimeProperty
  | DateProperty
  | TimeProperty
  | StructuredProperty model_class
  | StringProperty
  | IntegerProperty
  | OtherProperty
and property = Property (p_type: prop_type) (p_repeated: bool)
and model_class =
  ModelClass (cls_kind: string) (cls_properties: "(string \<times> property) list")
    (cls_RESTMeta: "rest_meta option")

definition DEFAULT_MAX_QUERY_RESULTS :: nat where
  "DEFAULT_MAX_QUERY_RESULTS = 1000"

definition DEFAULT_EXCLUDED_INPUT_PROPERTIES :: "string list" where
  "DEFAULT_EXCLUDED_INPUT_PROPERTIES = [''class_'']"

definition DEFAULT_EXCLUDED_OUTPUT_PROPERTIES :: "string list" where
  "DEFAULT_EXCLUDED_OUTPUT_PROPERTIES = []"

section \<open>Property projection\<close>

text \<open>\<^verbatim>\<open>getattr(meta_class, name, [])\<close> on a list attribute.\<close>

definition getattr_list :: "'a list option \<Rightarrow> 'a list" where
  "getattr_list a = (case a of None \<Rightarrow> [] | Some xs \<Rightarrow> xs)"

text \<open>
  \<^verbatim>\<open>getattr(meta_class, 'included_%s_properties' % input_type, [])\<close> and its
  \<^verbatim>\<open>excluded\<close> twin.
\<close>

definition included_for :: "rest_meta \<Rightarrow> input_type \<Rightarrow> string list option" where
  "included_for m d =
     (case d of Input \<Rightarrow> included_input_properties m | Output \<Rightarrow> included_output_properties m)"

definition excluded_for :: "rest_meta \<Rightarrow> input_type \<Rightarrow> string list option" where
  "excluded_for m d =
     (case d of Input \<Rightarrow> excluded_input_properties m | Output \<Rightarrow> excluded_output_properties m)"

text \<open>
  \<^verbatim>\<open>get_included_properties(model, input_type)\<close>, statement by statement: the
  declared inclusions, replaced by all the properties of the model when that set is empty;
  the declared exclusions; the default exclusions of the direction, and \<^verbatim>\<open>'id'\<close>
  added to the inclusions for input under \<^verbatim>\<open>use_input_id\<close>; the difference.
\<close>

definition get_included_properties :: "model_class \<Rightarrow> input_type \<Rightarrow> string set" where
  "get_included_properties model d =
     (let meta_class = cls_RESTMeta model;
          included0 =
            (case meta_class of
               None \<Rightarrow> {}
             | Some m \<Rightarrow>
                 set (getattr_list (included_for m d)) \<union> set (getattr_list (included_properties m)));
          included1 =
            (if included0 = {} then set (map fst (cls_properties model)) else included0);
          excluded0 =
            (case meta_class of
               None \<Rightarrow> {}
             | Some m \<Rightarrow>
                 set (getattr_list (excluded_for m d)) \<union> set (getattr_list (excluded_properties m)));
          excluded1 =
            (case d of
               Input \<Rightarrow> excluded0 \<union> set DEFAULT_EXCLUDED_INPUT_PROPERTIES
             | Output \<Rightarrow> excluded0 \<union> set DEFAULT_EXCLUDED_OUTPUT_PROPERTIES);
          included2 =
            (case d of
               Input \<Rightarrow>
                 (case meta_class of
                    None \<Rightarrow> included1
                  | Some m \<Rightarrow> if use_input_id m then included1 \<union> {''id''} else included1)
             | Output \<Rightarrow> included1)
      in included2 - excluded1)"

text \<open>
  The sets the specification speaks of: the declared inclusion set and the declared
  exclusion set of a direction, and the built-in exclusions.
\<close>

definition declared_included :: "model_class \<Rightarrow> input_type \<Rightarrow> string set" where
  "declared_included model d =
     (case cls_RESTMeta model of
        None \<Rightarrow> {}
      | Some m \<Rightarrow>
          set (getattr_list (included_for m d)) \<union> set (getattr_list (included_properties m)))"

definition declared_excluded :: "model_class \<Rightarrow> input_type \<Rightarrow> string set" where
  "declared_excluded model d =
     (case cls_RESTMeta model of
        None \<Rightarrow> {}
      | Some m \<Rightarrow>
          set (getattr_list (excluded_for m d)) \<union> set (getattr_list (excluded_properties m)))"

definition default_excluded :: "input_type \<Rightarrow> string set" where
  "default_excluded d =
     (case d of
        Input \<Rightarrow> set DEFAULT_EXCLUDED_INPUT_PROPERTIES
      | Output \<Rightarrow> set DEFAULT_EXCLUDED_OUTPUT_PROPERTIES)"

definition forced_id :: "model_class \<Rightarrow> input_type \<Rightarrow> string set" where
  "forced_id model d =
     (case cls_RESTMeta model of
        None \<Rightarrow> {}
      | Some m \<Rightarrow> if d = Input \<and> use_input_id m then {''id''} else {})"

section \<open>Run-time values, exceptions and the collaborators\<close>

text \<open>
  A datastore key is a kind and an identifier, a string (client-supplied, or any key name)
  or an integer (allocated by the datastore).
\<close>

datatype key_id = StrId string | IntId int

datatype key = Key (key_kind: string) (key_ident: key_id)

text \<open>
  The Python values the handlers see: what \<^verbatim>\<open>json.loads\<close> produces, and what
  the properties of an entity hold (keys, the three temporal classes of
  \<^verbatim>\<open>datetime\<close>, entities of a structured property). A temporal value is kept
  as a number (of microseconds, of days); only its class matters to the source, which
  formats and parses it with library functions. An entity is an instance of a model class
  with an optional key and a value for each property.
\<close>

datatype val =
    VNone
  | VBool bool
  | VInt int
  | VStr string
  | VList "val list"
  | VDict "(string \<times> val) list"
  | VKey key
  | VDateTime nat
  | VDate nat
  | VTime nat
  | VModel entity
and entity =
  Entity (ent_class: model_class) (ent_key: "key option") (ent_values: "(string \<times> val) list")

text \<open>
  Exceptions are values: the class and the message (\<^verbatim>\<open>str(exc)\<close>).
  \<^verbatim>\<open>except Exception\<close> catches every class below.
\<close>

datatype exn_class =
    RESTException
  | ValueError
  | TypeError
  | AttributeError
  | KeyError
  | BadValueError
  | BadRequestError
  | ProtocolBufferDecodeError
  | TransactionFailedError
  | OtherError

datatype exn = Exn (exn_cls: exn_class) (exn_msg: string)

text \<open>
  A query of the datastore, as the handlers build it: the kind, the filters (the text of
  a GQL \<^verbatim>\<open>WHERE\<close> clause given by the user, or the equality of a property to a
  value added with \<^verbatim>\<open>query.filter(prop == value)\<close>) and the sort orders (a
  property or the key, descending or not). A cursor is the resume point of a paged query, the keys
  delivered so far, or the bytes of a token that are no such point:
  \<^verbatim>\<open>Cursor(urlsafe=...)\<close> decodes the text of the token, and what it decodes to
  is read when a page is fetched.
\<close>

datatype filter_node = GqlWhere string | FilterEq string val

datatype order_by = ByProperty string | ByKey

record query =
  q_kind :: string
  q_filters :: "filter_node list"
  q_orders :: "(order_by \<times> bool) list"

datatype cursor = Cursor "key list" | RawCursor string

text \<open>
  The library functions the source calls and does not define, taken as parameters:
  \<^verbatim>\<open>ndb.Model._kind_map.get\<close>, \<^verbatim>\<open>ndb.Key(urlsafe=...)\<close>,
  \<^verbatim>\<open>key.urlsafe()\<close>, \<^verbatim>\<open>dateutil.parser.parse\<close>,
  \<^verbatim>\<open>datetime.isoformat\<close>, \<^verbatim>\<open>str\<close> on an input value (for the
  messages), \<^verbatim>\<open>int\<close> on a string (\<open>None\<close> is its \<^verbatim>\<open>ValueError\<close>),
  \<^verbatim>\<open>json.loads\<close> (\<open>None\<close> is its \<^verbatim>\<open>ValueError\<close>), the validation
  NDB runs when a property of an entity is assigned and when an entity is put (\<open>Some\<close>
  is the exception raised), the compilation of a GQL \<^verbatim>\<open>WHERE\<close> clause for a
  model (\<open>Some\<close> is the exception raised) and its meaning on an entity,
  \<^verbatim>\<open>Cursor(urlsafe=...)\<close> and \<^verbatim>\<open>cursor.urlsafe()\<close>, the exception
  that \<^verbatim>\<open>query.fetch_page(limit, start_cursor=cursor)\<close> raises for a query, a
  limit and a cursor (\<open>None\<close> when it delivers a page), the order of the datastore on
  property values, \<^verbatim>\<open>urllib.urlencode\<close>, and whether a model class has an
  attribute of a name that is neither a property nor \<^verbatim>\<open>key\<close> (a method, an
  inner class, any other class attribute).
\<close>

record env =
  kind_map :: "string \<Rightarrow> model_class option"
  key_from_urlsafe :: "val \<Rightarrow> exn + key"
  key_urlsafe :: "key \<Rightarrow> string"
  dateutil_parse :: "val \<Rightarrow> exn + val"
  isoformat :: "nat \<Rightarrow> string"
  py_str :: "val \<Rightarrow> string"
  py_int :: "string \<Rightarrow> int option"
  json_loads :: "string \<Rightarrow> val option"
  ndb_validate :: "property \<Rightarrow> val \<Rightarrow> exn option"
  ndb_put_check :: "entity \<Rightarrow> exn option"
  gql_check :: "model_class \<Rightarrow> string \<Rightarrow> exn option"
  gql_eval :: "string \<Rightarrow> entity \<Rightarrow> bool"
  cursor_from_urlsafe :: "string \<Rightarrow> exn + cursor"
  cursor_urlsafe :: "cursor \<Rightarrow> string"
  fetch_page_raises :: "query \<Rightarrow> nat \<Rightarrow> cursor option \<Rightarrow> exn option"
  val_less :: "val \<Rightarrow> val \<Rightarrow> bool"
  urlencode :: "(string \<times> string) list \<Rightarrow> string"
  other_attribute :: "model_class \<Rightarrow> string \<Rightarrow> bool"

text \<open>Python's truth value of an object (\<^verbatim>\<open>if x\<close>, \<^verbatim>\<open>not x\<close>).\<close>

fun truthy :: "val \<Rightarrow> bool" where
  "truthy VNone = False"
| "truthy (VBool b) = b"
| "truthy (VInt n) = (n \<noteq> 0)"
| "truthy (VStr s) = (s \<noteq> [])"
| "truthy (VList xs) = (xs \<noteq> [])"
| "truthy (VDict d) = (d \<noteq> [])"
| "truthy (VKey k) = True"
| "truthy (VDateTime t) = True"
| "truthy (VDate t) = True"
| "truthy (VTime t) = (t \<noteq> 0)"
| "truthy (VModel m) = True"

text \<open>
  The datastore: the persisted entities by key. \<^verbatim>\<open>key.get()\<close> is a lookup,
  \<^verbatim>\<open>key.delete()\<close> removes the binding. An entity read from the datastore
  carries the key it is stored under.
\<close>

type_synonym datastore = "(key \<times> entity) list"

definition stored :: "key \<times> entity \<Rightarrow> entity" where
  "stored b = Entity (ent_class (snd b)) (Some (fst b)) (ent_values (snd b))"

definition key_get :: "datastore \<Rightarrow> key \<Rightarrow> entity option" where
  "key_get ds k = map_option (\<lambda>m. stored (k, m)) (map_of ds k)"

definition key_delete :: "datastore \<Rightarrow> key \<Rightarrow> datastore" where
  "key_delete ds k = AList.delete k ds"

text \<open>
  The handler class \<^verbatim>\<open>RESTHandlerClass\<close> that \<^verbatim>\<open>get_rest_class\<close>
  builds, with the request it serves: the model, the permissions table (method name to
  level, \<^verbatim>\<open>OPTIONS\<close> included), the callbacks (\<open>None\<close> when not given), the
  current user (\<^verbatim>\<open>self.user\<close>, \<open>None\<close> when nobody is logged in), the query
  arguments \<^verbatim>\<open>request.GET\<close>, the body and the URL of the request. A callback
  is a function of its arguments that returns or raises.
\<close>

record handler =
  h_model :: model_class
  h_permissions :: "(string \<times> string) list"
  h_user :: "entity option"
  get_callback :: "(val \<Rightarrow> exn + val) option"
  post_callback :: "(entity \<Rightarrow> val \<Rightarrow> exn + entity) option"
  put_callback :: "(entity \<Rightarrow> val \<Rightarrow> exn + entity) option"
  delete_callback :: "(entity \<Rightarrow> exn option) option"
  request_GET :: "(string \<times> string) list"
  request_body :: string
  request_path_url :: string

text \<open>
  The HTTP responses of \<^verbatim>\<open>BaseRESTHandler\<close> (\<^verbatim>\<open>success\<close> 200,
  \<^verbatim>\<open>error\<close> 400, \<^verbatim>\<open>method_not_allowed\<close> 405,
  \<^verbatim>\<open>permission_denied\<close> 403, \<^verbatim>\<open>unauthorized\<close> 401), and the case
  that an exception leaves the handler uncaught.
\<close>

datatype response =
    Success val
  | Error string
  | MethodNotAllowed
  | PermissionDenied "string option"
  | Unauthorized
  | Uncaught exn

section \<open>Resolving the addressed entity and its owner\<close>

text \<open>\<^verbatim>\<open>getattr(cls, 'RESTMeta', None) and getattr(cls.RESTMeta, 'use_input_id', False)\<close>\<close>

definition uses_input_id :: "model_class \<Rightarrow> bool" where
  "uses_input_id cls = (case cls_RESTMeta cls of None \<Rightarrow> False | Some m \<Rightarrow> use_input_id m)"

text \<open>
  \<^verbatim>\<open>ndb.Key(model_class, id)\<close>: the identifier is a string or an integer
  (a \<^verbatim>\<open>bool\<close> is an integer in Python), anything else is a \<^verbatim>\<open>TypeError\<close>.
\<close>

fun key_of_id :: "model_class \<Rightarrow> val \<Rightarrow> exn + key" where
  "key_of_id cls (VStr s) = Inr (Key (cls_kind cls) (StrId s))"
| "key_of_id cls (VInt n) = Inr (Key (cls_kind cls) (IntId n))"
| "key_of_id cls (VBool b) = Inr (Key (cls_kind cls) (IntId (if b then 1 else 0)))"
| "key_of_id cls v = Inl (Exn TypeError ''Key id must be a string or a number'')"

text \<open>
  \<^verbatim>\<open>_model_id_to_model\<close>: \<open>None\<close> for an identifier that is false in Python
  (the empty string), otherwise the stored entity; every exception on the way, and an
  entity that does not exist, is the \<^verbatim>\<open>RESTException\<close> "Invalid model id".
\<close>

definition model_id_to_model ::
  "env \<Rightarrow> handler \<Rightarrow> datastore \<Rightarrow> val \<Rightarrow> exn + entity option" where
  "model_id_to_model E h ds model_id =
     (if \<not> truthy model_id then Inr None
      else
        (case (if uses_input_id (h_model h) then key_of_id (h_model h) model_id
               else key_from_urlsafe E model_id) of
           Inl e \<Rightarrow> Inl (Exn RESTException (''Invalid model id - '' @ py_str E model_id))
         | Inr k \<Rightarrow>
             (case key_get ds k of
                None \<Rightarrow> Inl (Exn RESTException (''Invalid model id - '' @ py_str E model_id))
              | Some m \<Rightarrow> Inr (Some m))))"

text \<open>
  \<^verbatim>\<open>getattr(obj, name)\<close> on an entity or on \<^verbatim>\<open>None\<close>: the value of the
  property, an \<^verbatim>\<open>AttributeError\<close> when the object has no such attribute.
\<close>

definition getattr_model :: "entity option \<Rightarrow> string \<Rightarrow> exn + val" where
  "getattr_model obj name =
     (case obj of
        None \<Rightarrow> Inl (Exn AttributeError (''NoneType object has no attribute '' @ name))
      | Some m \<Rightarrow>
          (case map_of (ent_values m) name of
             None \<Rightarrow> Inl (Exn AttributeError (''object has no attribute '' @ name))
           | Some v \<Rightarrow> Inr v))"

text \<open>
  \<^verbatim>\<open>self.user_owner_property\<close> is \<^verbatim>\<open>self.model.RESTMeta.user_owner_property\<close>;
  \<^verbatim>\<open>get_model_owner\<close> reads that attribute of the given object.
\<close>

definition h_user_owner_property :: "handler \<Rightarrow> exn + string" where
  "h_user_owner_property h =
     (case cls_RESTMeta (h_model h) of
        None \<Rightarrow> Inl (Exn AttributeError ''RESTMeta'')
      | Some m \<Rightarrow>
          (case user_owner_property m of
             None \<Rightarrow> Inl (Exn AttributeError ''user_owner_property'')
           | Some p \<Rightarrow> Inr p))"

definition get_model_owner :: "handler \<Rightarrow> entity option \<Rightarrow> exn + val" where
  "get_model_owner h obj =
     (case h_user_owner_property h of
        Inl e \<Rightarrow> Inl e
      | Inr p \<Rightarrow> getattr_model obj p)"

text \<open>\<^verbatim>\<open>self.user.key\<close>, for a logged-in user.\<close>

definition key_val :: "entity \<Rightarrow> val" where
  "key_val m = (case ent_key m of None \<Rightarrow> VNone | Some k \<Rightarrow> VKey k)"

text \<open>
  The test \<^verbatim>\<open>self.get_model_owner(model) != self.user.key\<close> of the wrapper and
  of \<^verbatim>\<open>_multi_update_models\<close>.
\<close>

definition not_owned :: "handler \<Rightarrow> entity option \<Rightarrow> exn + bool" where
  "not_owned h model =
     (case get_model_owner h model of
        Inl e \<Rightarrow> Inl e
      | Inr owner \<Rightarrow>
          (case h_user h of
             None \<Rightarrow> Inl (Exn AttributeError ''NoneType object has no attribute key'')
           | Some u \<Rightarrow> Inr (owner \<noteq> key_val u)))"

text \<open>
  \<^verbatim>\<open>is_user_admin\<close>: a \<^verbatim>\<open>ValueError\<close> when the user model has no
  \<^verbatim>\<open>RESTMeta.admin_property\<close> or no such property, otherwise the value of that
  property (used as a truth value).
\<close>

definition is_user_admin :: "handler \<Rightarrow> exn + bool" where
  "is_user_admin h =
     (case h_user h of
        None \<Rightarrow> Inl (Exn ValueError ''The user model class must include a RESTMeta class'')
      | Some u \<Rightarrow>
          (case cls_RESTMeta (ent_class u) of
             None \<Rightarrow> Inl (Exn ValueError ''The user model class must include a RESTMeta class'')
           | Some m \<Rightarrow>
               (case admin_property m of
                  None \<Rightarrow>
                    Inl (Exn ValueError ''The user model class must include a RESTMeta class'')
                | Some p \<Rightarrow>
                    (case map_of (ent_values u) p of
                       None \<Rightarrow> Inl (Exn ValueError ''The user model class does not have the property'')
                     | Some v \<Rightarrow> Inr (truthy v)))))"

section \<open>The permission gate\<close>

text \<open>
  What \<^verbatim>\<open>inner_f\<close> does with an exception of the wrapped call: a
  \<^verbatim>\<open>RESTException\<close> is the 400 response, any other leaves the handler.
\<close>

definition on_exception :: "exn \<Rightarrow> response" where
  "on_exception e = (if exn_cls e = RESTException then Error (exn_msg e) else Uncaught e)"

text \<open>
  \<^verbatim>\<open>rest_method_wrapper\<close>: \<open>func\<close> is the wrapped method (it gets the resolved
  entity or \<open>None\<close> and the datastore, and returns a value or raises, with the datastore
  as it leaves it), \<open>method_name\<close> the upper-case name of the method and \<open>model_id\<close>
  the part of the URL after the resource (empty, or a slash and what follows it).
\<close>

definition rest_method_wrapper ::
  "env \<Rightarrow> handler \<Rightarrow> string \<Rightarrow> (entity option \<Rightarrow> datastore \<Rightarrow> (exn + val) \<times> datastore) \<Rightarrow>
   string \<Rightarrow> datastore \<Rightarrow> response \<times> datastore" where
  "rest_method_wrapper E h method_name func model_id ds =
     (case map_of (h_permissions h) method_name of
        None \<Rightarrow> (MethodNotAllowed, ds)
      | Some permission \<Rightarrow>
          if permission \<in> set [PERMISSION_LOGGED_IN_USER, PERMISSION_OWNER_USER, PERMISSION_ADMIN]
             \<and> h_user h = None
          then (Unauthorized, ds)
          else
            (case (if permission = PERMISSION_ADMIN then is_user_admin h else Inr True) of
               Inl e \<Rightarrow> (Uncaught e, ds)
             | Inr False \<Rightarrow> (PermissionDenied None, ds)
             | Inr True \<Rightarrow>
                 if model_id \<noteq> [] then
                   (case model_id_to_model E h ds (VStr (tl model_id)) of
                      Inl e \<Rightarrow> (on_exception e, ds)
                    | Inr model \<Rightarrow>
                        (case (if permission = PERMISSION_OWNER_USER then not_owned h model
                               else Inr False) of
                           Inl e \<Rightarrow> (on_exception e, ds)
                         | Inr True \<Rightarrow> (PermissionDenied None, ds)
                         | Inr False \<Rightarrow>
                             (case func model ds of
                                (Inl e, ds') \<Rightarrow> (on_exception e, ds')
                              | (Inr result, ds') \<Rightarrow> (Success result, ds'))))
                 else
                   (case func None ds of
                      (Inl e, ds') \<Rightarrow> (on_exception e, ds')
                    | (Inr result, ds') \<Rightarrow> (Success result, ds'))))"

section \<open>Building an entity from input data\<close>

text \<open>
  Python's operations on the input data, which is whatever \<^verbatim>\<open>json.loads\<close>
  returned: \<^verbatim>\<open>name in data\<close> (a key of a dictionary, an element of a list, a
  substring of a string, a \<^verbatim>\<open>TypeError\<close> on anything else),
  \<^verbatim>\<open>data[name]\<close> with a string index and the iteration
  \<^verbatim>\<open>for value in data\<close>.
\<close>

definition is_substring :: "string \<Rightarrow> string \<Rightarrow> bool" where
  "is_substring xs ys =
     list_ex (\<lambda>i. take (length xs) (drop i ys) = xs) [0..<Suc (length ys)]"

fun py_in :: "string \<Rightarrow> val \<Rightarrow> exn + bool" where
  "py_in name (VDict d) = Inr (name \<in> fst ` set d)"
| "py_in name (VList xs) = Inr (VStr name \<in> set xs)"
| "py_in name (VStr s) = Inr (is_substring name s)"
| "py_in name v = Inl (Exn TypeError ''argument is not iterable'')"

fun py_getitem :: "val \<Rightarrow> string \<Rightarrow> exn + val" where
  "py_getitem (VDict d) name =
     (case map_of d name of None \<Rightarrow> Inl (Exn KeyError name) | Some v \<Rightarrow> Inr v)"
| "py_getitem v name = Inl (Exn TypeError ''indices must be integers'')"

fun py_iter :: "val \<Rightarrow> exn + val list" where
  "py_iter (VList xs) = Inr xs"
| "py_iter (VStr s) = Inr (map (\<lambda>c. VStr [c]) s)"
| "py_iter (VDict d) = Inr (map VStr (remdups (map fst d)))"
| "py_iter v = Inl (Exn TypeError ''object is not iterable'')"

text \<open>The results of a loop whose body may raise: the first exception, or all the values.\<close>

fun sequence_sum :: "('e + 'a) list \<Rightarrow> 'e + 'a list" where
  "sequence_sum [] = Inr []"
| "sequence_sum (x # xs) =
     (case x of
        Inl e \<Rightarrow> Inl e
      | Inr y \<Rightarrow> (case sequence_sum xs of Inl e \<Rightarrow> Inl e | Inr ys \<Rightarrow> Inr (y # ys)))"

text \<open>
  The translation table of \<^verbatim>\<open>translate_property_names\<close>:
  \<^verbatim>\<open>translate_property_names\<close> of the \<^verbatim>\<open>RESTMeta\<close>, updated with the
  table of the direction. When \<^verbatim>\<open>translate_property_names\<close> is declared, the
  source updates that dictionary of the class in place, so the class keeps the merged
  table after the call: \<open>meta_after_translate\<close> is the \<^verbatim>\<open>RESTMeta\<close> a
  later call finds. Every function here takes the class as it is when it is called.
\<close>

definition translate_for :: "rest_meta \<Rightarrow> input_type \<Rightarrow> (string \<times> string) list option" where
  "translate_for m d =
     (case d of
        Input \<Rightarrow> translate_input_property_names m
      | Output \<Rightarrow> translate_output_property_names m)"

definition dict_update :: "('k \<times> 'v) list \<Rightarrow> ('k \<times> 'v) list \<Rightarrow> ('k \<times> 'v) list" where
  "dict_update d other = fold (\<lambda>(k, v) acc. AList.update k v acc) other d"

definition translation_table :: "rest_meta \<Rightarrow> input_type \<Rightarrow> (string \<times> string) list" where
  "translation_table m d =
     dict_update (getattr_list (translate_property_names m)) (getattr_list (translate_for m d))"

definition meta_after_translate :: "rest_meta \<Rightarrow> input_type \<Rightarrow> rest_meta" where
  "meta_after_translate m d =
     (case translate_property_names m of
        None \<Rightarrow> m
      | Some t \<Rightarrow> m \<lparr> translate_property_names := Some (translation_table m d) \<rparr>)"

text \<open>
  One turn of the loop of \<^verbatim>\<open>translate_property_names\<close> for the pair
  \<open>(old_name, new_name)\<close>: for output the value under the old name moves to the new
  name, for input the value under the new name moves back to the old name; a name that
  is not in the data is skipped. On data that is not a dictionary the membership test
  or the subscript raises.
\<close>

definition translate_step :: "input_type \<Rightarrow> string \<times> string \<Rightarrow> val \<Rightarrow> exn + val" where
  "translate_step d p data =
     (let src = (case d of Output \<Rightarrow> fst p | Input \<Rightarrow> snd p);
          dst = (case d of Output \<Rightarrow> snd p | Input \<Rightarrow> fst p)
      in case py_in src data of
           Inl e \<Rightarrow> Inl e
         | Inr False \<Rightarrow> Inr data
         | Inr True \<Rightarrow>
             (case py_getitem data src of
                Inl e \<Rightarrow> Inl e
              | Inr original_value \<Rightarrow>
                  (case data of
                     VDict dict \<Rightarrow>
                       Inr (VDict (AList.update dst original_value (AList.delete src dict)))
                   | _ \<Rightarrow> Inl (Exn TypeError ''object does not support item deletion''))))"

fun translate_loop :: "input_type \<Rightarrow> (string \<times> string) list \<Rightarrow> val \<Rightarrow> exn + val" where
  "translate_loop d [] data = Inr data"
| "translate_loop d (p # ps) data =
     (case translate_step d p data of
        Inl e \<Rightarrow> Inl e
      | Inr data' \<Rightarrow> translate_loop d ps data')"

definition translate_property_names_fn :: "val \<Rightarrow> model_class \<Rightarrow> input_type \<Rightarrow> exn + val" where
  "translate_property_names_fn data model d =
     (case cls_RESTMeta model of
        None \<Rightarrow> Inr data
      | Some m \<Rightarrow> translate_loop d (translation_table m d) data)"

text \<open>
  The keyword arguments \<^verbatim>\<open>input_properties\<close> reach NDB in
  \<^verbatim>\<open>cls(**input_properties)\<close> and \<^verbatim>\<open>model.populate(**input_properties)\<close>.
  Both assign each named property after validating the value; a name that is not a
  property of the class is refused. A new entity starts with every property unset
  (\<^verbatim>\<open>None\<close>, the empty list for a repeated property); the keyword
  \<^verbatim>\<open>id\<close>, unless the class has a property of that name, is the identifier of
  its key.
\<close>

fun set_attributes ::
  "env \<Rightarrow> model_class \<Rightarrow> (string \<times> val) list \<Rightarrow> (string \<times> val) list \<Rightarrow>
   exn + (string \<times> val) list" where
  "set_attributes E cls vals [] = Inr vals"
| "set_attributes E cls vals ((name, v) # kwds) =
     (case map_of (cls_properties cls) name of
        None \<Rightarrow> Inl (Exn TypeError (''Cannot set non-property '' @ name))
      | Some prop \<Rightarrow>
          (case ndb_validate E prop v of
             Some e \<Rightarrow> Inl e
           | None \<Rightarrow> set_attributes E cls (AList.update name v vals) kwds))"

definition unset_values :: "model_class \<Rightarrow> (string \<times> val) list" where
  "unset_values cls =
     map (\<lambda>(name, prop). (name, if p_repeated prop then VList [] else VNone)) (cls_properties cls)"

definition new_model :: "env \<Rightarrow> model_class \<Rightarrow> (string \<times> val) list \<Rightarrow> exn + entity" where
  "new_model E cls kwds =
     (let id_is_property = (map_of (cls_properties cls) ''id'' \<noteq> None);
          id_arg = (if id_is_property then None else map_of kwds ''id'');
          rest = (if id_is_property then kwds else AList.delete ''id'' kwds)
      in case (case id_arg of
                 None \<Rightarrow> Inr None
               | Some VNone \<Rightarrow> Inr None
               | Some v \<Rightarrow> map_sum id Some (key_of_id cls v)) of
           Inl e \<Rightarrow> Inl e
         | Inr k \<Rightarrow>
             (case set_attributes E cls (unset_values cls) rest of
                Inl e \<Rightarrow> Inl e
              | Inr vals \<Rightarrow> Inr (Entity cls k vals)))"

definition populate :: "env \<Rightarrow> entity \<Rightarrow> (string \<times> val) list \<Rightarrow> exn + entity" where
  "populate E model kwds =
     (case set_attributes E (ent_class model) (ent_values model) kwds of
        Inl e \<Rightarrow> Inl e
      | Inr vals \<Rightarrow> Inr (Entity (ent_class model) (ent_key model) vals))"

text \<open>
  \<^verbatim>\<open>_value_to_property\<close> and \<^verbatim>\<open>_build_model_from_data\<close>, which call each
  other through a structured property. In \<^verbatim>\<open>_build_model_from_data\<close> the loop
  over \<^verbatim>\<open>cls._properties\<close> yields, for each property, nothing when its name is
  not in the data, or the name with the converted value.
\<close>

fun value_to_property :: "env \<Rightarrow> handler \<Rightarrow> val \<Rightarrow> property \<Rightarrow> exn + val"
and build_model_from_data ::
  "env \<Rightarrow> handler \<Rightarrow> val \<Rightarrow> model_class \<Rightarrow> entity option \<Rightarrow> exn + entity"
where
  "value_to_property E h v (Property (KeyProperty kind) rep) =
     (if v = VNone then Inr VNone
      else
        (case key_from_urlsafe E v of
           Inr k \<Rightarrow> Inr (VKey k)
         | Inl e \<Rightarrow>
             if exn_cls e = ProtocolBufferDecodeError then
               (case (case kind of None \<Rightarrow> None | Some kd \<Rightarrow> kind_map E kd) of
                  None \<Rightarrow> Inl (Exn RESTException (''invalid key: '' @ py_str E v))
                | Some model_class \<Rightarrow>
                    if uses_input_id model_class then map_sum id VKey (key_of_id model_class v)
                    else Inl (Exn RESTException (''invalid key: '' @ py_str E v)))
             else Inl e))"
| "value_to_property E h v (Property DateTimeProperty rep) = dateutil_parse E v"
| "value_to_property E h v (Property DateProperty rep) = dateutil_parse E v"
| "value_to_property E h v (Property TimeProperty rep) = dateutil_parse E v"
| "value_to_property E h v (Property (StructuredProperty mc) rep) =
     map_sum id VModel (build_model_from_data E h v mc None)"
| "value_to_property E h v (Property StringProperty rep) = Inr v"
| "value_to_property E h v (Property IntegerProperty rep) = Inr v"
| "value_to_property E h v (Property OtherProperty rep) = Inr v"
| "build_model_from_data E h data0 (ModelClass kind props meta) model =
     (let cls = ModelClass kind props meta in
      case translate_property_names_fn data0 cls Input of
        Inl e \<Rightarrow> Inl e
      | Inr data \<Rightarrow>
          (case sequence_sum
                  (map (\<lambda>(name, prop).
                          (case py_in name data of
                             Inl e \<Rightarrow> Inl e
                           | Inr False \<Rightarrow> Inr None
                           | Inr True \<Rightarrow>
                               (case py_getitem data name of
                                  Inl e \<Rightarrow> Inl e
                                | Inr v \<Rightarrow>
                                    if p_repeated prop then
                                      (case py_iter v of
                                         Inl e \<Rightarrow> Inl e
                                       | Inr vs \<Rightarrow>
                                           (case sequence_sum
                                                   (map (\<lambda>x. value_to_property E h x prop) vs) of
                                              Inl e \<Rightarrow> Inl e
                                            | Inr ys \<Rightarrow> Inr (Some (name, VList ys))))
                                    else
                                      (case value_to_property E h v prop of
                                         Inl e \<Rightarrow> Inl e
                                       | Inr y \<Rightarrow> Inr (Some (name, y))))))
                     props) of
             Inl e \<Rightarrow> Inl e
           | Inr items \<Rightarrow>
               (case (if model = None \<and> uses_input_id cls then
                        (case py_in ''id'' data of
                           Inl e \<Rightarrow> Inl e
                         | Inr False \<Rightarrow> Inl (Exn RESTException ''id field is required'')
                         | Inr True \<Rightarrow>
                             (case py_getitem data ''id'' of
                                Inl e \<Rightarrow> Inl e
                              | Inr v \<Rightarrow>
                                  Inr (AList.update ''id'' v (List.map_filter id items))))
                      else Inr (List.map_filter id items)) of
                  Inl e \<Rightarrow> Inl e
                | Inr input_properties \<Rightarrow>
                    (let included_properties = get_included_properties cls Input;
                         filtered = filter (\<lambda>(k, v). k \<in> included_properties) input_properties;
                         with_owner =
                           (case (case meta of None \<Rightarrow> None | Some m \<Rightarrow> user_owner_property m) of
                              None \<Rightarrow> filtered
                            | Some owner_prop \<Rightarrow>
                                (case h_user h of
                                   None \<Rightarrow> filtered
                                 | Some u \<Rightarrow>
                                     if model = None
                                     then AList.update owner_prop (key_val u) filtered
                                     else filtered))
                     in case model of
                          None \<Rightarrow> new_model E cls with_owner
                        | Some existing \<Rightarrow> populate E existing with_owner))))"

section \<open>The datastore: put, queries, pages, transactions\<close>

text \<open>
  \<^verbatim>\<open>model.put()\<close>: the checks of NDB, then the entity is stored under its key;
  an entity without a key gets a fresh integer identifier of its kind.
\<close>

definition allocate_id :: "datastore \<Rightarrow> string \<Rightarrow> int" where
  "allocate_id ds kd =
     1 + fold (\<lambda>(k, m) n. case k of
                             Key kd' (IntId i) \<Rightarrow> if kd' = kd then max i n else n
                           | _ \<Rightarrow> n) ds 0"

definition model_put :: "env \<Rightarrow> entity \<Rightarrow> datastore \<Rightarrow> exn + entity \<times> datastore" where
  "model_put E m ds =
     (case ndb_put_check E m of
        Some e \<Rightarrow> Inl e
      | None \<Rightarrow>
          (let k = (case ent_key m of
                      Some k \<Rightarrow> k
                    | None \<Rightarrow>
                        Key (cls_kind (ent_class m))
                          (IntId (allocate_id ds (cls_kind (ent_class m)))));
               m' = Entity (ent_class m) (Some k) (ent_values m)
           in Inr (m', AList.update k m' ds)))"

text \<open>
  The meaning of a query: the stored entities of the kind that pass every filter, sorted
  by the orders. \<^verbatim>\<open>fetch_page(limit, start_cursor=cursor)\<close> delivers the first
  \<open>limit\<close> of those not delivered before the cursor, the cursor after them and
  whether more are left, unless the datastore raises for the limit or the cursor.
\<close>

definition attr_or_none :: "entity \<Rightarrow> string \<Rightarrow> val" where
  "attr_or_none m p = (case map_of (ent_values m) p of None \<Rightarrow> VNone | Some v \<Rightarrow> v)"

fun filter_holds :: "env \<Rightarrow> entity \<Rightarrow> filter_node \<Rightarrow> bool" where
  "filter_holds E m (GqlWhere s) = gql_eval E s m"
| "filter_holds E m (FilterEq p v) = (map_of (ent_values m) p = Some v)"

definition order_value :: "entity \<Rightarrow> order_by \<Rightarrow> val" where
  "order_value m ob =
     (case ob of
        ByProperty p \<Rightarrow> attr_or_none m p
      | ByKey \<Rightarrow> (case ent_key m of None \<Rightarrow> VNone | Some k \<Rightarrow> VKey k))"

fun order_le :: "env \<Rightarrow> (order_by \<times> bool) list \<Rightarrow> entity \<Rightarrow> entity \<Rightarrow> bool" where
  "order_le E [] a b = True"
| "order_le E ((ob, desc) # os) a b =
     (if val_less E (order_value a ob) (order_value b ob) then \<not> desc
      else if val_less E (order_value b ob) (order_value a ob) then desc
      else order_le E os a b)"

fun insert_by :: "('a \<Rightarrow> 'a \<Rightarrow> bool) \<Rightarrow> 'a \<Rightarrow> 'a list \<Rightarrow> 'a list" where
  "insert_by le x [] = [x]"
| "insert_by le x (y # ys) = (if le x y then x # y # ys else y # insert_by le x ys)"

definition sort_by :: "('a \<Rightarrow> 'a \<Rightarrow> bool) \<Rightarrow> 'a list \<Rightarrow> 'a list" where
  "sort_by le xs = foldr (insert_by le) xs []"

definition run_query :: "env \<Rightarrow> datastore \<Rightarrow> query \<Rightarrow> entity list" where
  "run_query E ds q =
     sort_by (order_le E (q_orders q))
       (filter (\<lambda>m. list_all (filter_holds E m) (q_filters q))
          (map stored (filter (\<lambda>(k, m). key_kind k = q_kind q) ds)))"

definition cursor_keys :: "cursor option \<Rightarrow> key list" where
  "cursor_keys c = (case c of None \<Rightarrow> [] | Some (Cursor ks) \<Rightarrow> ks | Some (RawCursor s) \<Rightarrow> [])"

definition undelivered :: "env \<Rightarrow> datastore \<Rightarrow> query \<Rightarrow> cursor option \<Rightarrow> entity list" where
  "undelivered E ds q c =
     filter (\<lambda>m. ent_key m \<notin> Some ` set (cursor_keys c)) (run_query E ds q)"

definition fetch_page ::
  "env \<Rightarrow> datastore \<Rightarrow> query \<Rightarrow> nat \<Rightarrow> cursor option \<Rightarrow>
   exn + entity list \<times> cursor option \<times> bool" where
  "fetch_page E ds q limit start_cursor =
     (case fetch_page_raises E q limit start_cursor of
        Some e \<Rightarrow> Inl e
      | None \<Rightarrow>
        (let seen = cursor_keys start_cursor;
             rest = undelivered E ds q start_cursor;
             results = take limit rest;
             cursor = (if results = [] then None
                       else Some (Cursor (seen @ List.map_filter ent_key results)));
             more_available = (limit < length rest)
         in Inr (results, cursor, more_available)))"

text \<open>
  \<^verbatim>\<open>@ndb.transactional(retries=..., xg=True)\<close>: the body runs on the datastore
  as it is; an exception of the body rolls its writes back and is raised to the caller;
  when the body returns, the commit either succeeds or collides with a concurrent write,
  and on a collision the body is run again while retries are left, after which the
  \<^verbatim>\<open>TransactionFailedError\<close> is raised. \<open>collisions\<close> tells for each commit,
  in turn, whether it collides. \<open>attempts\<close> is the number of runs left.
\<close>

fun run_transaction ::
  "nat \<Rightarrow> bool list \<Rightarrow> (datastore \<Rightarrow> exn + 'a \<times> datastore) \<Rightarrow> datastore \<Rightarrow>
   (exn + 'a) \<times> datastore" where
  "run_transaction 0 collisions body ds =
     (Inl (Exn TransactionFailedError ''The transaction could not be committed. Please try again.''),
      ds)"
| "run_transaction (Suc n) collisions body ds =
     (case body ds of
        Inl e \<Rightarrow> (Inl e, ds)
      | Inr (r, ds') \<Rightarrow>
          (case collisions of
             True # cs \<Rightarrow> run_transaction n cs body ds
           | _ \<Rightarrow> (Inr r, ds')))"

definition transactional ::
  "nat \<Rightarrow> bool list \<Rightarrow> (datastore \<Rightarrow> exn + 'a \<times> datastore) \<Rightarrow> datastore \<Rightarrow>
   (exn + 'a) \<times> datastore" where
  "transactional retries collisions body ds = run_transaction (Suc retries) collisions body ds"

section \<open>Queries of the GET endpoint\<close>

text \<open>\<^verbatim>\<open>self.request.GET.get(name)\<close>, and whether it is false in Python.\<close>

definition GET_get :: "handler \<Rightarrow> string \<Rightarrow> string option" where
  "GET_get h name = map_of (request_GET h) name"

definition GET_missing :: "handler \<Rightarrow> string \<Rightarrow> bool" where
  "GET_missing h name = (case GET_get h name of None \<Rightarrow> True | Some s \<Rightarrow> s = [])"

definition GET_text :: "handler \<Rightarrow> string \<Rightarrow> string" where
  "GET_text h name = (case GET_get h name of None \<Rightarrow> ''None'' | Some s \<Rightarrow> s)"

definition model_query :: "model_class \<Rightarrow> query" where
  "model_query cls = \<lparr> q_kind = cls_kind cls, q_filters = [], q_orders = [] \<rparr>"

text \<open>\<^verbatim>\<open>_filter_query\<close>\<close>

definition filter_query :: "env \<Rightarrow> handler \<Rightarrow> exn + query" where
  "filter_query E h =
     (if GET_missing h ''q'' then Inr (model_query (h_model h))
      else
        (case gql_check E (h_model h) (''WHERE '' @ GET_text h ''q'') of
           Some e \<Rightarrow>
             Inl (Exn RESTException
                    (''Invalid query param - '' @ [CHR 0x22] @ GET_text h ''q'' @ [CHR 0x22]))
         | None \<Rightarrow>
             Inr ((model_query (h_model h)) \<lparr> q_filters := [GqlWhere (GET_text h ''q'')] \<rparr>)))"

text \<open>\<^verbatim>\<open>query.filter(node)\<close>\<close>

definition query_filter :: "query \<Rightarrow> filter_node \<Rightarrow> query" where
  "query_filter q f = q \<lparr> q_filters := q_filters q @ [f] \<rparr>"

text \<open>
  \<^verbatim>\<open>_fetch_query\<close>: the limit (the default when none is given, a
  \<^verbatim>\<open>RESTException\<close> when it is not an integer above zero), the cursor (a
  \<^verbatim>\<open>RESTException\<close> when \<^verbatim>\<open>Cursor(urlsafe=...)\<close> raises
  \<^verbatim>\<open>BadValueError\<close>), the page (a \<^verbatim>\<open>RESTException\<close> when
  \<^verbatim>\<open>fetch_page\<close> raises \<^verbatim>\<open>BadRequestError\<close>), and no cursor when no more
  results are available. An exception of another class leaves the method as it is.
\<close>

definition fetch_limit :: "env \<Rightarrow> handler \<Rightarrow> exn + nat" where
  "fetch_limit E h =
     (if GET_missing h ''limit'' then Inr DEFAULT_MAX_QUERY_RESULTS
      else
        (case py_int E (GET_text h ''limit'') of
           None \<Rightarrow>
             Inl (Exn RESTException
                    (''Invalid '' @ [CHR 0x22] @ ''limit'' @ [CHR 0x22] @ '' parameter - ''
                     @ GET_text h ''limit''))
         | Some limit \<Rightarrow>
             if limit \<le> 0 then
               Inl (Exn RESTException
                      (''Invalid '' @ [CHR 0x22] @ ''limit'' @ [CHR 0x22] @ '' parameter - ''
                       @ GET_text h ''limit''))
             else Inr (nat limit)))"

definition invalid_cursor :: "handler \<Rightarrow> exn" where
  "invalid_cursor h =
     Exn RESTException
       (''Invalid '' @ [CHR 0x22] @ ''cursor'' @ [CHR 0x22] @ '' argument - '' @ GET_text h ''cursor'')"

definition fetch_cursor :: "env \<Rightarrow> handler \<Rightarrow> exn + cursor option" where
  "fetch_cursor E h =
     (if GET_missing h ''cursor'' then Inr None
      else
        (case cursor_from_urlsafe E (GET_text h ''cursor'') of
           Inl e \<Rightarrow> if exn_cls e = BadValueError then Inl (invalid_cursor h) else Inl e
         | Inr c \<Rightarrow> Inr (Some c)))"

definition fetch_query ::
  "env \<Rightarrow> handler \<Rightarrow> datastore \<Rightarrow> query \<Rightarrow> exn + entity list \<times> cursor option" where
  "fetch_query E h ds q =
     (case fetch_limit E h of
        Inl e \<Rightarrow> Inl e
      | Inr limit \<Rightarrow>
          (case fetch_cursor E h of
             Inl e \<Rightarrow> Inl e
           | Inr cursor \<Rightarrow>
               (case fetch_page E ds q limit cursor of
                  Inl e \<Rightarrow> if exn_cls e = BadRequestError then Inl (invalid_cursor h) else Inl e
                | Inr (results, cursor', more_available) \<Rightarrow>
                    Inr (results, if \<not> more_available then None else cursor'))))"

text \<open>
  \<^verbatim>\<open>_order_query\<close>: the \<^verbatim>\<open>order\<close> argument is split at the commas, each
  part stripped and read as a sign and a name, and the name looked up with
  \<^verbatim>\<open>getattr(self.model, name)\<close>. That finds a property, the key of the model, or
  any other attribute of the class; a name that is no attribute is the
  \<^verbatim>\<open>AttributeError\<close> that becomes the \<^verbatim>\<open>RESTException\<close>. An attribute
  that is no property is taken to be an object without a negation, so that \<^verbatim>\<open>-\<close>
  on it raises a \<^verbatim>\<open>TypeError\<close> inside the \<^verbatim>\<open>try\<close>, which does not catch
  it, and \<^verbatim>\<open>query.order\<close> refuses it with a \<^verbatim>\<open>TypeError\<close> after the
  \<^verbatim>\<open>try\<close>.
\<close>

fun split_commas :: "string \<Rightarrow> string \<Rightarrow> string list" where
  "split_commas acc [] = [rev acc]"
| "split_commas acc (c # cs) =
     (if c = CHR '','' then rev acc # split_commas [] cs else split_commas (c # acc) cs)"

definition is_space :: "char \<Rightarrow> bool" where
  "is_space c = (c \<in> set [CHR '' '', CHR 0x09, CHR 0x0A, CHR 0x0B, CHR 0x0C, CHR 0x0D])"

definition strip :: "string \<Rightarrow> string" where
  "strip s = rev (dropWhile is_space (rev (dropWhile is_space s)))"

definition signed_order :: "string \<Rightarrow> string" where
  "signed_order o' =
     (case o' of
        [] \<Rightarrow> ''+''
      | c # cs \<Rightarrow> if c = CHR ''-'' \<or> c = CHR ''+'' then o' else CHR ''+'' # o')"

datatype order_term = Ordered order_by bool | Unordered string

definition order_of :: "env \<Rightarrow> model_class \<Rightarrow> string \<Rightarrow> exn + order_term" where
  "order_of E cls o' =
     (case map_of (cls_properties cls) (tl o') of
        Some prop \<Rightarrow> Inr (Ordered (ByProperty (tl o')) (hd o' = CHR ''-''))
      | None \<Rightarrow>
          if tl o' = ''key'' then Inr (Ordered ByKey (hd o' = CHR ''-''))
          else if other_attribute E cls (tl o') then
            (if hd o' = CHR ''-'' then Inl (Exn TypeError ''bad operand type for unary -'')
             else Inr (Unordered (tl o')))
          else Inl (Exn AttributeError (tl o')))"

text \<open>\<^verbatim>\<open>query.order(*orders)\<close>\<close>

definition query_order :: "query \<Rightarrow> order_term list \<Rightarrow> exn + query" where
  "query_order q orders =
     (if list_ex (\<lambda>t. case t of Unordered name \<Rightarrow> True | Ordered ob desc \<Rightarrow> False) orders
      then Inl (Exn TypeError ''order() expects a Property or query Order'')
      else
        Inr (q \<lparr> q_orders :=
                  q_orders q
                  @ List.map_filter
                      (\<lambda>t. case t of Ordered ob desc \<Rightarrow> Some (ob, desc) | Unordered name \<Rightarrow> None)
                      orders \<rparr>))"

definition order_query :: "env \<Rightarrow> handler \<Rightarrow> query \<Rightarrow> exn + query" where
  "order_query E h q =
     (if GET_missing h ''order'' then Inr q
      else
        (case sequence_sum
                (map (\<lambda>o'. order_of E (h_model h) (signed_order (strip o')))
                   (split_commas [] (GET_text h ''order''))) of
           Inl e \<Rightarrow>
             if exn_cls e = AttributeError then
               Inl (Exn RESTException
                      (''Invalid '' @ [CHR 0x22] @ ''order'' @ [CHR 0x22] @ '' parameter - ''
                       @ GET_text h ''order''))
             else Inl e
         | Inr orders \<Rightarrow> query_order q orders))"

text \<open>\<^verbatim>\<open>_build_next_query_url\<close>\<close>

definition build_next_query_url :: "env \<Rightarrow> handler \<Rightarrow> cursor option \<Rightarrow> val" where
  "build_next_query_url E h cursor =
     (case cursor of
        None \<Rightarrow> VNone
      | Some c \<Rightarrow>
          VStr (request_path_url h @ ''?''
                @ urlencode E (AList.update ''cursor'' (cursor_urlsafe E c) (request_GET h))))"

section \<open>The REST endpoint methods\<close>

text \<open>
  The filter of the owner, \<^verbatim>\<open>getattr(self.model, self.user_owner_property) == self.user.key\<close>.
\<close>

definition owner_filter :: "handler \<Rightarrow> exn + filter_node" where
  "owner_filter h =
     (case h_user_owner_property h of
        Inl e \<Rightarrow> Inl e
      | Inr p \<Rightarrow>
          (case map_of (cls_properties (h_model h)) p of
             None \<Rightarrow> Inl (Exn AttributeError p)
           | Some prop \<Rightarrow>
               (case h_user h of
                  None \<Rightarrow> Inl (Exn AttributeError ''NoneType object has no attribute key'')
                | Some u \<Rightarrow> Inr (FilterEq p (key_val u)))))"

text \<open>\<^verbatim>\<open>self.permissions[method]\<close>\<close>

definition permission_of :: "handler \<Rightarrow> string \<Rightarrow> exn + string" where
  "permission_of h method =
     (case map_of (h_permissions h) method of
        None \<Rightarrow> Inl (Exn KeyError method)
      | Some p \<Rightarrow> Inr p)"

text \<open>
  The query of the GET endpoint without a model: the filter of the user, the filter of
  the owner under \<^verbatim>\<open>PERMISSION_OWNER_USER\<close>, the order.
\<close>

definition get_query :: "env \<Rightarrow> handler \<Rightarrow> exn + query" where
  "get_query E h =
     (case filter_query E h of
        Inl e \<Rightarrow> Inl e
      | Inr query \<Rightarrow>
          (case permission_of h ''GET'' of
             Inl e \<Rightarrow> Inl e
           | Inr permission \<Rightarrow>
               (case (if permission = PERMISSION_OWNER_USER
                      then map_sum id (query_filter query) (owner_filter h)
                      else Inr query) of
                  Inl e \<Rightarrow> Inl e
                | Inr query' \<Rightarrow> order_query E h query')))"

text \<open>\<^verbatim>\<open>get\<close>: a page of the query, or the addressed entity.\<close>

definition get :: "env \<Rightarrow> handler \<Rightarrow> entity option \<Rightarrow> datastore \<Rightarrow> (exn + val) \<times> datastore" where
  "get E h model ds =
     (case model of
        None \<Rightarrow>
          (case get_query E h of
             Inl e \<Rightarrow> (Inl e, ds)
           | Inr query \<Rightarrow>
               (case fetch_query E h ds query of
                  Inl e \<Rightarrow> (Inl e, ds)
                | Inr (results, cursor) \<Rightarrow>
                    (case (case get_callback h of
                             None \<Rightarrow> Inr (VList (map VModel results))
                           | Some cb \<Rightarrow> cb (VList (map VModel results))) of
                       Inl e \<Rightarrow> (Inl e, ds)
                     | Inr results' \<Rightarrow>
                         (Inr (VDict [(''results'', results'),
                                      (''next_results_url'', build_next_query_url E h cursor)]),
                          ds))))
      | Some m \<Rightarrow>
          (case get_callback h of
             None \<Rightarrow> (Inr (VModel m), ds)
           | Some cb \<Rightarrow> (cb (VModel m), ds)))"

text \<open>
  What follows \<^verbatim>\<open>_build_model_from_data\<close> in \<^verbatim>\<open>post\<close>,
  \<^verbatim>\<open>put\<close> and \<^verbatim>\<open>_multi_update_models\<close>: the callback when one is
  set, then \<^verbatim>\<open>model.put()\<close>.
\<close>

definition callback_and_put ::
  "env \<Rightarrow> (entity \<Rightarrow> val \<Rightarrow> exn + entity) option \<Rightarrow> entity \<Rightarrow> val \<Rightarrow> datastore \<Rightarrow>
   exn + entity \<times> datastore" where
  "callback_and_put E cb model json_data ds =
     (case (case cb of None \<Rightarrow> Inr model | Some f \<Rightarrow> f model json_data) of
        Inl e \<Rightarrow> Inl e
      | Inr model' \<Rightarrow> model_put E model' ds)"

text \<open>
  The data the callback and the caller see after \<^verbatim>\<open>_build_model_from_data\<close>,
  which translates the names of the dictionary it is given in place.
\<close>

definition data_after_build :: "val \<Rightarrow> model_class \<Rightarrow> val" where
  "data_after_build data cls =
     (case translate_property_names_fn data cls Input of Inl e \<Rightarrow> data | Inr data' \<Rightarrow> data')"

text \<open>\<^verbatim>\<open>post\<close>\<close>

definition post :: "env \<Rightarrow> handler \<Rightarrow> entity option \<Rightarrow> datastore \<Rightarrow> (exn + val) \<times> datastore" where
  "post E h model ds =
     (if model \<noteq> None then (Inl (Exn RESTException ''Cannot POST to a specific model ID''), ds)
      else
        (case json_loads E (request_body h) of
           None \<Rightarrow> (Inl (Exn RESTException ''Invalid JSON POST data''), ds)
         | Some json_data \<Rightarrow>
             (case (case build_model_from_data E h json_data (h_model h) None of
                      Inl e \<Rightarrow> Inl e
                    | Inr m \<Rightarrow>
                        callback_and_put E (post_callback h) m
                          (data_after_build json_data (h_model h)) ds) of
                Inl e \<Rightarrow> (Inl (Exn RESTException (''Invalid JSON POST data - '' @ exn_msg e)), ds)
              | Inr (m', ds') \<Rightarrow> (Inr (VModel m'), ds'))))"

text \<open>
  The body of \<^verbatim>\<open>_multi_update_models\<close> for one element of the list, and the
  loop over the list; the method itself is the loop under
  \<^verbatim>\<open>ndb.transactional(retries=0, xg=True)\<close>. The list
  \<^verbatim>\<open>updated_models\<close> holds instances, and within the transaction
  \<^verbatim>\<open>key.get()\<close> hands out the same instance for the same key: an update of an
  entity that the list holds already changes it in the list too (\<open>same_instance\<close>).
  The entity a callback returns is taken to be the instance it was given.
\<close>

definition update_one ::
  "env \<Rightarrow> handler \<Rightarrow> string \<Rightarrow> val \<Rightarrow> datastore \<Rightarrow> exn + entity \<times> datastore" where
  "update_one E h permission model_to_update ds =
     (case py_in ''id'' model_to_update of
        Inl e \<Rightarrow> Inl e
      | Inr False \<Rightarrow>
          Inl (Exn RESTException
                 (''Missing '' @ [CHR 0x22] @ ''id'' @ [CHR 0x22] @ '' argument for model''))
      | Inr True \<Rightarrow>
          (case py_getitem model_to_update ''id'' of
             Inl e \<Rightarrow> Inl e
           | Inr model_id \<Rightarrow>
               (case model_id_to_model E h ds model_id of
                  Inl e \<Rightarrow> Inl e
                | Inr model \<Rightarrow>
                    (case (if permission = PERMISSION_OWNER_USER then not_owned h model
                           else Inr False) of
                       Inl e \<Rightarrow> Inl e
                     | Inr True \<Rightarrow>
                         Inl (Exn RESTException
                                (''Model id '' @ py_str E model_id @ '' is not owned by user''))
                     | Inr False \<Rightarrow>
                         (case (case build_model_from_data E h model_to_update (h_model h) model of
                                  Inl e \<Rightarrow> Inl e
                                | Inr m \<Rightarrow>
                                    callback_and_put E (put_callback h) m
                                      (data_after_build model_to_update (h_model h)) ds) of
                            Inl e \<Rightarrow>
                              Inl (Exn RESTException (''Invalid JSON PUT data - '' @ exn_msg e))
                          | Inr r \<Rightarrow> Inr r)))))"

definition same_instance :: "entity \<Rightarrow> entity list \<Rightarrow> entity list" where
  "same_instance m updated_models = map (\<lambda>x. if ent_key x = ent_key m then m else x) updated_models"

fun update_loop ::
  "env \<Rightarrow> handler \<Rightarrow> string \<Rightarrow> val list \<Rightarrow> entity list \<Rightarrow> datastore \<Rightarrow>
   exn + entity list \<times> datastore" where
  "update_loop E h permission [] updated_models ds = Inr (updated_models, ds)"
| "update_loop E h permission (model_to_update # models) updated_models ds =
     (case update_one E h permission model_to_update ds of
        Inl e \<Rightarrow> Inl e
      | Inr (m, ds') \<Rightarrow>
          update_loop E h permission models (same_instance m updated_models @ [m]) ds')"

definition multi_update_body ::
  "env \<Rightarrow> handler \<Rightarrow> val list \<Rightarrow> datastore \<Rightarrow> exn + entity list \<times> datastore" where
  "multi_update_body E h models ds =
     (case permission_of h ''PUT'' of
        Inl e \<Rightarrow> Inl e
      | Inr permission \<Rightarrow> update_loop E h permission models [] ds)"

definition multi_update_models ::
  "env \<Rightarrow> handler \<Rightarrow> bool list \<Rightarrow> val list \<Rightarrow> datastore \<Rightarrow> (exn + entity list) \<times> datastore" where
  "multi_update_models E h collisions models ds =
     transactional 0 collisions (multi_update_body E h models) ds"

text \<open>
  \<^verbatim>\<open>put\<close>: the list of updates when no entity is addressed, the update of the
  addressed entity otherwise. \<open>collisions\<close> is the fate of the commits of the
  transaction.
\<close>

definition put ::
  "env \<Rightarrow> handler \<Rightarrow> bool list \<Rightarrow> entity option \<Rightarrow> datastore \<Rightarrow> (exn + val) \<times> datastore" where
  "put E h collisions model ds =
     (case json_loads E (request_body h) of
        None \<Rightarrow> (Inl (Exn RESTException ''Invalid JSON PUT data''), ds)
      | Some json_data \<Rightarrow>
          (case model of
             None \<Rightarrow>
               (case json_data of
                  VList models \<Rightarrow>
                    (case multi_update_models E h collisions models ds of
                       (Inl e, ds') \<Rightarrow> (Inl e, ds')
                     | (Inr updated_models, ds') \<Rightarrow>
                         (Inr (VList (map VModel updated_models)), ds'))
                | _ \<Rightarrow> (Inl (Exn RESTException ''Invalid JSON PUT data''), ds))
           | Some existing \<Rightarrow>
               (case (case build_model_from_data E h json_data (h_model h) (Some existing) of
                        Inl e \<Rightarrow> Inl e
                      | Inr m \<Rightarrow>
                          callback_and_put E (put_callback h) m
                            (data_after_build json_data (h_model h)) ds) of
                  Inl e \<Rightarrow> (Inl (Exn RESTException (''Invalid JSON PUT data - '' @ exn_msg e)), ds)
                | Inr (m', ds') \<Rightarrow> (Inr (VModel m'), ds'))))"

text \<open>
  \<^verbatim>\<open>delete\<close> without a model deletes page by page. With a callback the entities
  of a page are deleted one at a time, the callback first; an exception stops the loop
  and leaves the deletions made so far. Without a callback the page is deleted with
  \<^verbatim>\<open>ndb.delete_multi\<close>.
\<close>

fun delete_each ::
  "(entity \<Rightarrow> exn option) \<Rightarrow> entity list \<Rightarrow> entity list \<Rightarrow> datastore \<Rightarrow>
   (exn + entity list) \<times> datastore" where
  "delete_each cb [] deleted_models ds = (Inr deleted_models, ds)"
| "delete_each cb (m # ms) deleted_models ds =
     (case cb m of
        Some e \<Rightarrow> (Inl e, ds)
      | None \<Rightarrow>
          (case ent_key m of
             None \<Rightarrow> (Inl (Exn AttributeError ''NoneType object has no attribute delete''), ds)
           | Some k \<Rightarrow> delete_each cb ms (deleted_models @ [m]) (key_delete ds k)))"

definition delete_multi :: "entity list \<Rightarrow> datastore \<Rightarrow> exn + datastore" where
  "delete_multi ms ds =
     (if list_ex (\<lambda>m. ent_key m = None) ms
      then Inl (Exn AttributeError ''NoneType object has no attribute delete'')
      else Inr (fold (\<lambda>k ds'. key_delete ds' k) (List.map_filter ent_key ms) ds))"

definition delete_page ::
  "handler \<Rightarrow> entity list \<Rightarrow> entity list \<Rightarrow> datastore \<Rightarrow> (exn + entity list) \<times> datastore" where
  "delete_page h results deleted_models ds =
     (if results \<noteq> [] then
        (case delete_callback h of
           Some cb \<Rightarrow> delete_each cb results deleted_models ds
         | None \<Rightarrow>
             (case delete_multi results ds of
                Inl e \<Rightarrow> (Inl e, ds)
              | Inr ds' \<Rightarrow> (Inr (deleted_models @ results), ds')))
      else (Inr deleted_models, ds))"

text \<open>
  The loop \<^verbatim>\<open>while more_available\<close> of \<^verbatim>\<open>delete\<close> ends: the entities the
  query admits and the cursor has not passed get fewer with every page.
\<close>

lemma length_filter_insert_by:
  "length (filter P (insert_by le x xs)) = length (filter P (x # xs))"
  by (induction xs) auto

lemma length_filter_sort_by:
  "length (filter P (sort_by le xs)) = length (filter P xs)"
  by (induction xs) (auto simp: sort_by_def length_filter_insert_by)

lemma set_insert_by: "set (insert_by le x xs) = insert x (set xs)"
  by (induction xs) auto

lemma set_sort_by: "set (sort_by le xs) = set xs"
  by (induction xs) (auto simp: sort_by_def set_insert_by)

definition query_admits :: "env \<Rightarrow> query \<Rightarrow> key \<times> entity \<Rightarrow> bool" where
  "query_admits E q b =
     (key_kind (fst b) = q_kind q \<and> list_all (filter_holds E (stored b)) (q_filters q))"

definition pending :: "env \<Rightarrow> query \<Rightarrow> cursor option \<Rightarrow> datastore \<Rightarrow> nat" where
  "pending E q c ds =
     length (filter (\<lambda>b. fst b \<notin> set (cursor_keys c) \<and> query_admits E q b) ds)"

lemma ent_key_stored: "ent_key (stored b) = Some (fst b)"
  by (simp add: stored_def)

lemma set_run_query: "set (run_query E ds q) = stored ` {b \<in> set ds. query_admits E q b}"
  by (auto simp: run_query_def set_sort_by query_admits_def)

lemma length_rest:
  "length (filter (\<lambda>m. ent_key m \<notin> Some ` set seen) (run_query E ds q))
   = length (filter (\<lambda>b. fst b \<notin> set seen \<and> query_admits E q b) ds)"
proof -
  have "length (filter (\<lambda>m. ent_key m \<notin> Some ` set seen) (run_query E ds q))
      = length (filter (\<lambda>m. ent_key m \<notin> Some ` set seen)
           (filter (\<lambda>m. list_all (filter_holds E m) (q_filters q))
              (map stored (filter (\<lambda>(k, m). key_kind k = q_kind q) ds))))"
    by (simp add: run_query_def length_filter_sort_by)
  also have "\<dots> = length (filter (\<lambda>b. fst b \<notin> set seen \<and> query_admits E q b) ds)"
    by (induction ds) (auto simp: ent_key_stored query_admits_def)
  finally show ?thesis .
qed

lemma length_filter_less:
  assumes "\<And>x. P' x \<Longrightarrow> P x" and "x0 \<in> set xs" and "P x0" and "\<not> P' x0"
  shows "length (filter P' xs) < length (filter P xs)"
proof -
  have "filter P' xs = filter P' (filter P xs)"
    using assms(1) by (induction xs) auto
  moreover have "x0 \<in> set (filter P xs)" using assms by simp
  ultimately show ?thesis
    using assms(4) by (metis length_filter_less)
qed

lemma delete_each_filter:
  "delete_each cb ms acc ds = (r, ds') \<Longrightarrow> \<exists>Q. ds' = filter Q ds"
proof (induction ms arbitrary: acc ds)
  case Nil
  then show ?case by (auto intro: exI [of _ "\<lambda>_. True"])
next
  case (Cons m ms)
  show ?case
  proof (cases "cb m")
    case (Some e)
    with Cons.prems show ?thesis by (auto intro: exI [of _ "\<lambda>_. True"])
  next
    case None
    show ?thesis
    proof (cases "ent_key m")
      case None': None
      with None Cons.prems show ?thesis by (auto intro: exI [of _ "\<lambda>_. True"])
    next
      case (Some k)
      with None Cons.prems have "delete_each cb ms (acc @ [m]) (key_delete ds k) = (r, ds')"
        by simp
      from Cons.IH [OF this] obtain Q where "ds' = filter Q (key_delete ds k)" ..
      then have "ds' = filter (\<lambda>b. k \<noteq> fst b \<and> Q b) ds"
        by (simp add: key_delete_def AList.delete_eq case_prod_unfold)
      then show ?thesis by blast
    qed
  qed
qed

lemma fold_key_delete_filter: "\<exists>Q. fold (\<lambda>k ds'. key_delete ds' k) ks ds = filter Q ds"
proof (induction ks arbitrary: ds)
  case Nil
  show ?case by (auto intro: exI [of _ "\<lambda>_. True"])
next
  case (Cons k ks)
  from Cons [of "key_delete ds k"] obtain Q where
    "fold (\<lambda>k ds'. key_delete ds' k) ks (key_delete ds k) = filter Q (key_delete ds k)" ..
  then have "fold (\<lambda>k ds'. key_delete ds' k) (k # ks) ds = filter (\<lambda>b. k \<noteq> fst b \<and> Q b) ds"
    by (simp add: key_delete_def AList.delete_eq case_prod_unfold)
  then show ?case by blast
qed

lemma delete_page_filter:
  assumes "delete_page h results acc ds = (r, ds')"
  shows "\<exists>Q. ds' = filter Q ds"
proof (cases "results \<noteq> [] \<and> delete_callback h \<noteq> None")
  case True
  then obtain cb where "delete_callback h = Some cb" by auto
  with True assms have "delete_each cb results acc ds = (r, ds')"
    by (simp add: delete_page_def)
  then show ?thesis by (rule delete_each_filter)
next
  case False
  then have "ds' = ds \<or> ds' = fold (\<lambda>k ds'. key_delete ds' k) (List.map_filter ent_key results) ds"
    using assms by (auto simp: delete_page_def delete_multi_def split: if_splits)
  then show ?thesis
  proof
    assume "ds' = ds"
    then have "ds' = filter (\<lambda>_. True) ds" by simp
    then show ?thesis by blast
  next
    assume "ds' = fold (\<lambda>k ds'. key_delete ds' k) (List.map_filter ent_key results) ds"
    then show ?thesis using fold_key_delete_filter by simp
  qed
qed

lemma pending_decreases:
  assumes fp: "fetch_page E ds q limit c = Inr (results, c', True)"
    and dp': "(r, ds') = delete_page h results acc ds"
    and pos: "0 < limit"
  shows "pending E q c' ds' < pending E q c ds"
proof -
  let ?rest = "undelivered E ds q c"
  from dp' have dp: "delete_page h results acc ds = (r, ds')" by simp
  from fp have more: "limit < length ?rest"
    and res: "results = take limit ?rest"
    and c': "c' = (if results = [] then None
                   else Some (Cursor (cursor_keys c @ List.map_filter ent_key results)))"
    by (auto simp: fetch_page_def Let_def split: if_splits option.splits)
  from more pos have ne: "?rest \<noteq> []" by auto
  then obtain m0 ms where rest: "?rest = m0 # ms" by (cases ?rest) auto
  with res pos have m0: "m0 \<in> set results" by (cases limit) auto
  then have rne: "results \<noteq> []" by auto
  from rest have "m0 \<in> set ?rest" by simp
  then have m0q: "m0 \<in> set (run_query E ds q)" and m0s: "ent_key m0 \<notin> Some ` set (cursor_keys c)"
    by (auto simp: undelivered_def)
  from m0q obtain b0 where b0: "b0 \<in> set ds" "query_admits E q b0" "m0 = stored b0"
    by (auto simp: set_run_query)
  have k0: "ent_key m0 = Some (fst b0)" using b0 by (simp add: ent_key_stored)
  have seen': "cursor_keys c' = cursor_keys c @ List.map_filter ent_key results"
    using c' rne by (simp add: cursor_keys_def)
  have in': "fst b0 \<in> set (cursor_keys c')"
    using m0 k0 by (force simp: seen' List.map_filter_def)
  have out: "fst b0 \<notin> set (cursor_keys c)"
    using m0s k0 by auto
  from delete_page_filter [OF dp] obtain Q where Q: "ds' = filter Q ds" ..
  have "pending E q c' ds'
        = length (filter (\<lambda>b. Q b \<and> fst b \<notin> set (cursor_keys c') \<and> query_admits E q b) ds)"
    unfolding pending_def Q filter_filter by (simp add: conj_commute conj_left_commute)
  also have "\<dots> < length (filter (\<lambda>b. fst b \<notin> set (cursor_keys c) \<and> query_admits E q b) ds)"
    by (rule length_filter_less [of _ _ b0]) (use b0 in' out in \<open>auto simp: seen'\<close>)
  finally show ?thesis by (simp add: pending_def)
qed

text \<open>
  The loop of \<^verbatim>\<open>delete\<close>: fetch a page of \<^verbatim>\<open>DEFAULT_MAX_QUERY_RESULTS\<close>
  from the cursor, delete it, go on while more are available.
\<close>

function delete_pages ::
  "env \<Rightarrow> handler \<Rightarrow> query \<Rightarrow> cursor option \<Rightarrow> entity list \<Rightarrow> datastore \<Rightarrow>
   (exn + entity list) \<times> datastore" where
  "delete_pages E h q cursor deleted_models ds =
     (case fetch_page E ds q DEFAULT_MAX_QUERY_RESULTS cursor of
        Inl e \<Rightarrow> (Inl e, ds)
      | Inr (results, cursor', more_available) \<Rightarrow>
          (case delete_page h results deleted_models ds of
             (Inl e, ds') \<Rightarrow> (Inl e, ds')
           | (Inr deleted_models', ds') \<Rightarrow>
               if more_available then delete_pages E h q cursor' deleted_models' ds'
               else (Inr deleted_models', ds')))"
  by pat_completeness auto
termination
proof (relation "measure (\<lambda>(E, h, q, cursor, deleted_models, ds). pending E q cursor ds)",
    goal_cases)
  case 1
  show ?case by simp
next
  case 2
  then show ?case
    by (auto intro!: pending_decreases simp: DEFAULT_MAX_QUERY_RESULTS_def)
qed

declare delete_pages.simps [simp del]


text \<open>\<^verbatim>\<open>delete\<close>\<close>

definition delete :: "env \<Rightarrow> handler \<Rightarrow> entity option \<Rightarrow> datastore \<Rightarrow> (exn + val) \<times> datastore" where
  "delete E h model ds =
     (case model of
        None \<Rightarrow>
          (case permission_of h ''DELETE'' of
             Inl e \<Rightarrow> (Inl e, ds)
           | Inr permission \<Rightarrow>
               (case (if permission = PERMISSION_OWNER_USER
                      then map_sum id (query_filter (model_query (h_model h))) (owner_filter h)
                      else Inr (model_query (h_model h))) of
                  Inl e \<Rightarrow> (Inl e, ds)
                | Inr query \<Rightarrow>
                    (case delete_pages E h query None [] ds of
                       (Inl e, ds') \<Rightarrow> (Inl e, ds')
                     | (Inr deleted_models, ds') \<Rightarrow>
                         (Inr (VList (map VModel deleted_models)), ds'))))
      | Some m \<Rightarrow>
          (case (case (case delete_callback h of None \<Rightarrow> None | Some cb \<Rightarrow> cb m) of
                   Some e \<Rightarrow> Inl e
                 | None \<Rightarrow>
                     (case ent_key m of
                        None \<Rightarrow> Inl (Exn AttributeError ''NoneType object has no attribute delete'')
                      | Some k \<Rightarrow> Inr (key_delete ds k))) of
             Inl e \<Rightarrow> (Inl (Exn RESTException (''Could not delete model - '' @ exn_msg e)), ds)
           | Inr ds' \<Rightarrow> (Inr (VModel m), ds')))"

section \<open>The parts of \<^verbatim>\<open>_build_model_from_data\<close>\<close>

text \<open>
  The steps of \<^verbatim>\<open>_build_model_from_data\<close> after the translation of the names, named
  so that theorems can speak of them; \<open>build_model_from_data_unfold\<close> below shows that
  the function is their composition.
\<close>

text \<open>
  The body of the loop of \<^verbatim>\<open>_build_model_from_data\<close> over the properties, for one
  property: nothing when its name is not in the data, the name and the converted value
  otherwise.
\<close>

definition convert_item ::
  "env \<Rightarrow> handler \<Rightarrow> val \<Rightarrow> string \<times> property \<Rightarrow> exn + (string \<times> val) option" where
  "convert_item E h data p =
     (case py_in (fst p) data of
        Inl e \<Rightarrow> Inl e
      | Inr False \<Rightarrow> Inr None
      | Inr True \<Rightarrow>
          (case py_getitem data (fst p) of
             Inl e \<Rightarrow> Inl e
           | Inr v \<Rightarrow>
               if p_repeated (snd p) then
                 (case py_iter v of
                    Inl e \<Rightarrow> Inl e
                  | Inr vs \<Rightarrow>
                      (case sequence_sum (map (\<lambda>x. value_to_property E h x (snd p)) vs) of
                         Inl e \<Rightarrow> Inl e
                       | Inr ys \<Rightarrow> Inr (Some (fst p, VList ys))))
               else
                 (case value_to_property E h v (snd p) of
                    Inl e \<Rightarrow> Inl e
                  | Inr y \<Rightarrow> Inr (Some (fst p, y)))))"

text \<open>
  The identifier of a new entity under \<^verbatim>\<open>use_input_id\<close>, added to the input
  properties (the \<^verbatim>\<open>RESTException\<close> when the data has none).
\<close>

definition input_id ::
  "model_class \<Rightarrow> entity option \<Rightarrow> val \<Rightarrow> (string \<times> val) list \<Rightarrow> exn + (string \<times> val) list" where
  "input_id cls model data items =
     (if model = None \<and> uses_input_id cls then
        (case py_in ''id'' data of
           Inl e \<Rightarrow> Inl e
         | Inr False \<Rightarrow> Inl (Exn RESTException ''id field is required'')
         | Inr True \<Rightarrow>
             (case py_getitem data ''id'' of
                Inl e \<Rightarrow> Inl e
              | Inr v \<Rightarrow> Inr (AList.update ''id'' v items)))
      else Inr items)"

text \<open>
  The assignment of the owner: only for a new entity, when the class declares
  \<^verbatim>\<open>user_owner_property\<close> and a user is logged in.
\<close>

definition owner_injection ::
  "handler \<Rightarrow> model_class \<Rightarrow> entity option \<Rightarrow> (string \<times> val) list \<Rightarrow> (string \<times> val) list" where
  "owner_injection h cls model filtered =
     (case (case cls_RESTMeta cls of None \<Rightarrow> None | Some m \<Rightarrow> user_owner_property m) of
        None \<Rightarrow> filtered
      | Some owner_prop \<Rightarrow>
          (case h_user h of
             None \<Rightarrow> filtered
           | Some u \<Rightarrow>
               if model = None then AList.update owner_prop (key_val u) filtered else filtered))"

text \<open>
  The dictionary \<^verbatim>\<open>input_properties\<close> as it reaches \<^verbatim>\<open>cls(**input_properties)\<close> or
  \<^verbatim>\<open>model.populate(**input_properties)\<close>.
\<close>

definition input_properties ::
  "env \<Rightarrow> handler \<Rightarrow> val \<Rightarrow> model_class \<Rightarrow> entity option \<Rightarrow> exn + (string \<times> val) list" where
  "input_properties E h data cls model =
     (case sequence_sum (map (convert_item E h data) (cls_properties cls)) of
        Inl e \<Rightarrow> Inl e
      | Inr items \<Rightarrow>
          (case input_id cls model data (List.map_filter id items) of
             Inl e \<Rightarrow> Inl e
           | Inr props \<Rightarrow>
               Inr (owner_injection h cls model
                      (filter (\<lambda>(k, v). k \<in> get_included_properties cls Input) props))))"

text \<open>
  The loop of \<^verbatim>\<open>translate_property_names\<close> on a dictionary, where nothing raises.
\<close>

definition translate_dict ::
  "input_type \<Rightarrow> (string \<times> string) list \<Rightarrow> (string \<times> val) list \<Rightarrow> (string \<times> val) list" where
  "translate_dict d table dict =
     fold (\<lambda>p acc.
             let src = (case d of Output \<Rightarrow> fst p | Input \<Rightarrow> snd p);
                 dst = (case d of Output \<Rightarrow> snd p | Input \<Rightarrow> fst p)
             in case map_of acc src of
                  None \<Rightarrow> acc
                | Some v \<Rightarrow> AList.update dst v (AList.delete src acc))
       table dict"

text \<open>
  Two dictionaries hold the same under every key of a set.
\<close>

definition agree_on :: "string set \<Rightarrow> (string \<times> val) list \<Rightarrow> (string \<times> val) list \<Rightarrow> bool" where
  "agree_on S d d' = (\<forall>x\<in>S. map_of d x = map_of d' x)"

text \<open>
  The key \<^verbatim>\<open>id\<close>, read for a new entity under \<^verbatim>\<open>use_input_id\<close>.
\<close>

definition id_key :: "model_class \<Rightarrow> entity option \<Rightarrow> string set" where
  "id_key cls model = (if model = None \<and> uses_input_id cls then {''id''} else {})"

text \<open>
  The names under which the input translation table finds values in the data: the new
  names of its pairs.
\<close>

definition alias_keys :: "model_class \<Rightarrow> string set" where
  "alias_keys cls =
     (case cls_RESTMeta cls of
        None \<Rightarrow> {}
      | Some m \<Rightarrow> snd ` set (translation_table m Input))"

text \<open>
  The keys of the input data that \<^verbatim>\<open>_build_model_from_data\<close> reads: the names of
  the properties of the class, the names the input translation moves to other names, and
  \<^verbatim>\<open>id\<close> for a new entity under \<^verbatim>\<open>use_input_id\<close>.
\<close>

definition relevant_keys :: "model_class \<Rightarrow> entity option \<Rightarrow> string set" where
  "relevant_keys cls model = fst ` set (cls_properties cls) \<union> alias_keys cls \<union> id_key cls model"

text \<open>
  The value the loop over the properties yields for a name: the converted value of the
  data under that name when the name is a property of the class and is in the data.
\<close>

definition converted :: "env \<Rightarrow> handler \<Rightarrow> val \<Rightarrow> model_class \<Rightarrow> string \<Rightarrow> val option" where
  "converted E h data cls name =
     (case map_of (cls_properties cls) name of
        None \<Rightarrow> None
      | Some prop \<Rightarrow>
          (case convert_item E h data (name, prop) of
             Inr (Some (n, y)) \<Rightarrow> Some y
           | _ \<Rightarrow> None))"

text \<open>
  A stored entity of the model that the user owns: the binding of a key of the kind of the
  model to an entity whose owner property is the key of the user.
\<close>

definition owned_by :: "model_class \<Rightarrow> string \<Rightarrow> entity \<Rightarrow> key \<times> entity \<Rightarrow> bool" where
  "owned_by cls p u b =
     (key_kind (fst b) = cls_kind cls \<and> map_of (ent_values (snd b)) p = Some (key_val u))"

section \<open>The JSON encoder\<close>

text \<open>
  Every response is written with \<^verbatim>\<open>json.dumps(content, cls=NDBEncoder)\<close>.
  \<^verbatim>\<open>NDBEncoder.default\<close> starts from \<^verbatim>\<open>obj.to_dict()\<close>, the values of
  the properties by name, in which the entity of a structured property is a dictionary in
  turn.
\<close>

fun to_dict_val :: "val \<Rightarrow> val"
and to_dict :: "entity \<Rightarrow> (string \<times> val) list" where
  "to_dict_val (VModel m) = VDict (to_dict m)"
| "to_dict_val (VList xs) = VList (map to_dict_val xs)"
| "to_dict_val VNone = VNone"
| "to_dict_val (VBool b) = VBool b"
| "to_dict_val (VInt n) = VInt n"
| "to_dict_val (VStr s) = VStr s"
| "to_dict_val (VDict d) = VDict d"
| "to_dict_val (VKey k) = VKey k"
| "to_dict_val (VDateTime t) = VDateTime t"
| "to_dict_val (VDate t) = VDate t"
| "to_dict_val (VTime t) = VTime t"
| "to_dict (Entity c k vals) = map (\<lambda>(n, v). (n, to_dict_val v)) vals"

text \<open>
  \<^verbatim>\<open>NDBEncoder._decode_key\<close>: \<^verbatim>\<open>key.string_id()\<close> for a key of a kind
  with \<^verbatim>\<open>use_input_id\<close> (\<^verbatim>\<open>None\<close> when the identifier is an
  integer), \<^verbatim>\<open>key.urlsafe()\<close> otherwise.
\<close>

definition decode_key :: "env \<Rightarrow> key \<Rightarrow> val" where
  "decode_key E key =
     (case kind_map E (key_kind key) of
        None \<Rightarrow> VStr (key_urlsafe E key)
      | Some model_class \<Rightarrow>
          if uses_input_id model_class
          then (case key_ident key of StrId s \<Rightarrow> VStr s | IntId n \<Rightarrow> VNone)
          else VStr (key_urlsafe E key))"

text \<open>
  \<^verbatim>\<open>NDBEncoder.default\<close> on an entity: the dictionary of its values, filtered by
  the properties included for output, with the names translated for output, and the
  encoded key under \<^verbatim>\<open>id\<close>. An entity without a key has \<^verbatim>\<open>obj.key\<close>
  \<^verbatim>\<open>None\<close>, on which \<^verbatim>\<open>key.kind()\<close> raises.
\<close>

definition default_model :: "env \<Rightarrow> entity \<Rightarrow> exn + val" where
  "default_model E obj =
     (let included_properties = get_included_properties (ent_class obj) Output;
          obj_dict = filter (\<lambda>(k, v). k \<in> included_properties) (to_dict obj)
      in case translate_property_names_fn (VDict obj_dict) (ent_class obj) Output of
           Inl e \<Rightarrow> Inl e
         | Inr (VDict translated) \<Rightarrow>
             (case ent_key obj of
                None \<Rightarrow> Inl (Exn AttributeError ''NoneType object has no attribute kind'')
              | Some k \<Rightarrow> Inr (VDict (AList.update ''id'' (decode_key E k) translated)))
         | Inr other \<Rightarrow> Inl (Exn TypeError ''object does not support item assignment''))"

text \<open>
  The number of entities in a value, which bounds the calls of
  \<^verbatim>\<open>NDBEncoder.default\<close> on entities while a value is encoded: the dictionary
  that \<^verbatim>\<open>default\<close> returns for an entity holds fewer entities than the entity.
\<close>

fun models_in :: "val \<Rightarrow> nat"
and models_in_entity :: "entity \<Rightarrow> nat" where
  "models_in (VModel m) = Suc (models_in_entity m)"
| "models_in (VList xs) = sum_list (map models_in xs)"
| "models_in (VDict d) = sum_list (map (\<lambda>(k, v). models_in v) d)"
| "models_in VNone = 0"
| "models_in (VBool b) = 0"
| "models_in (VInt n) = 0"
| "models_in (VStr s) = 0"
| "models_in (VKey k) = 0"
| "models_in (VDateTime t) = 0"
| "models_in (VDate t) = 0"
| "models_in (VTime t) = 0"
| "models_in_entity (Entity c k vals) = sum_list (map (\<lambda>(n, v). models_in v) vals)"

lemma in_keys_iff: "k \<in> fst ` set d \<longleftrightarrow> map_of d k \<noteq> None"
  by (simp add: map_of_eq_None_iff)

lemma translate_step_dict:
  "translate_step d p (VDict dict) =
     Inr (VDict (let src = (case d of Output \<Rightarrow> fst p | Input \<Rightarrow> snd p);
                     dst = (case d of Output \<Rightarrow> snd p | Input \<Rightarrow> fst p)
                 in case map_of dict src of
                      None \<Rightarrow> dict
                    | Some v \<Rightarrow> AList.update dst v (AList.delete src dict)))"
  by (cases d) (auto simp: translate_step_def Let_def in_keys_iff split: option.splits)

lemma translate_loop_dict:
  "translate_loop d table (VDict dict) = Inr (VDict (translate_dict d table dict))"
proof (induction table arbitrary: dict)
  case Nil
  show ?case by (simp add: translate_dict_def)
next
  case (Cons p ps)
  show ?case
    by (simp add: translate_step_dict Cons.IH) (simp add: translate_dict_def Let_def)
qed

lemma models_in_to_dict:
  "models_in (to_dict_val v) \<le> models_in v"
  "sum_list (map (\<lambda>(k, v). models_in v) (to_dict m)) \<le> models_in_entity m"
proof (induction v and m rule: to_dict_val_to_dict.induct)
  case (2 xs)
  then show ?case by (induction xs) (auto intro: add_mono)
next
  case (12 c k vals)
  then show ?case
  proof (induction vals)
    case Nil
    then show ?case by simp
  next
    case (Cons a vals)
    then show ?case by (cases a) (auto intro!: add_mono)
  qed
qed auto

lemma models_in_filter:
  "sum_list (map (\<lambda>(k, v). models_in v) (filter P d)) \<le> sum_list (map (\<lambda>(k, v). models_in v) d)"
  by (induction d) auto

lemma models_in_update:
  "sum_list (map (\<lambda>(k, v). models_in v) (AList.update k v d))
   \<le> sum_list (map (\<lambda>(k, v). models_in v) d) + models_in v"
  by (induction d) auto

lemma models_in_delete:
  "map_of d k = Some v \<Longrightarrow>
   sum_list (map (\<lambda>(k, v). models_in v) (AList.delete k d)) + models_in v
   \<le> sum_list (map (\<lambda>(k, v). models_in v) d)"
proof (induction d)
  case Nil
  then show ?case by simp
next
  case (Cons a d)
  obtain k' v' where a: "a = (k', v')" by (cases a)
  show ?case
  proof (cases "k' = k")
    case True
    with Cons.prems a have "v' = v" by simp
    moreover have "sum_list (map (\<lambda>(k, v). models_in v) (AList.delete k d))
                   \<le> sum_list (map (\<lambda>(k, v). models_in v) d)"
      by (simp add: AList.delete_eq models_in_filter)
    ultimately show ?thesis using True a by simp
  next
    case False
    with Cons a show ?thesis by simp
  qed
qed

lemma models_in_translate:
  "sum_list (map (\<lambda>(k, v). models_in v) (translate_dict dir table d))
   \<le> sum_list (map (\<lambda>(k, v). models_in v) d)"
proof (induction table arbitrary: d)
  case Nil
  show ?case by (simp add: translate_dict_def)
next
  case (Cons p ps)
  let ?src = "case dir of Output \<Rightarrow> fst p | Input \<Rightarrow> snd p"
  let ?dst = "case dir of Output \<Rightarrow> snd p | Input \<Rightarrow> fst p"
  let ?d1 = "case map_of d ?src of
               None \<Rightarrow> d
             | Some v \<Rightarrow> AList.update ?dst v (AList.delete ?src d)"
  have "sum_list (map (\<lambda>(k, v). models_in v) ?d1) \<le> sum_list (map (\<lambda>(k, v). models_in v) d)"
  proof (cases "map_of d ?src")
    case None
    then show ?thesis by simp
  next
    case (Some v)
    from models_in_update [of ?dst v "AList.delete ?src d"] models_in_delete [OF Some]
    show ?thesis by (simp add: Some)
  qed
  moreover have "translate_dict dir (p # ps) d = translate_dict dir ps ?d1"
    by (simp add: translate_dict_def Let_def)
  ultimately show ?case using Cons [of ?d1] by simp
qed

lemma default_model_models:
  assumes "default_model E m = Inr d"
  shows "models_in d < models_in (VModel m)"
proof -
  let ?d0 = "filter (\<lambda>(k, v). k \<in> get_included_properties (ent_class m) Output) (to_dict m)"
  obtain t where t: "translate_property_names_fn (VDict ?d0) (ent_class m) Output = Inr (VDict t)"
    and le: "sum_list (map (\<lambda>(k, v). models_in v) t) \<le> sum_list (map (\<lambda>(k, v). models_in v) ?d0)"
  proof (cases "cls_RESTMeta (ent_class m)")
    case None
    then have "translate_property_names_fn (VDict ?d0) (ent_class m) Output = Inr (VDict ?d0)"
      by (simp add: translate_property_names_fn_def)
    then show ?thesis using that by blast
  next
    case (Some meta)
    then have "translate_property_names_fn (VDict ?d0) (ent_class m) Output
               = Inr (VDict (translate_dict Output (translation_table meta Output) ?d0))"
      by (simp add: translate_property_names_fn_def translate_loop_dict)
    then show ?thesis using that models_in_translate by blast
  qed
  from assms t obtain k where d: "d = VDict (AList.update ''id'' (decode_key E k) t)"
    by (auto simp: default_model_def Let_def split: option.splits)
  have "models_in (decode_key E k) = 0"
    by (simp add: decode_key_def split: option.splits key_id.splits)
  with models_in_update [of "''id''" "decode_key E k" t]
  have "models_in d \<le> sum_list (map (\<lambda>(k, v). models_in v) t)" by (simp add: d)
  also note le
  also have "sum_list (map (\<lambda>(k, v). models_in v) ?d0) \<le> models_in_entity m"
    using models_in_filter models_in_to_dict(2) by (rule order_trans)
  finally show ?thesis by simp
qed

text \<open>
  \<^verbatim>\<open>json.dumps(value, cls=NDBEncoder)\<close>, up to the rendering of the JSON text:
  the JSON value written. \<^verbatim>\<open>None\<close>, booleans, numbers and strings are written
  as they are, lists and dictionaries element by element; for every other object the
  encoder calls \<^verbatim>\<open>NDBEncoder.default\<close> and encodes what it returns. That method
  handles entities, \<^verbatim>\<open>datetime\<close> objects (\<^verbatim>\<open>isoformat()\<close>) and keys;
  a \<^verbatim>\<open>date\<close> or a \<^verbatim>\<open>time\<close> is no instance of \<^verbatim>\<open>datetime\<close>
  and reaches \<^verbatim>\<open>json.JSONEncoder.default\<close>, which raises a
  \<^verbatim>\<open>TypeError\<close>.
\<close>

function json_encode :: "env \<Rightarrow> val \<Rightarrow> exn + val" where
  "json_encode E VNone = Inr VNone"
| "json_encode E (VBool b) = Inr (VBool b)"
| "json_encode E (VInt n) = Inr (VInt n)"
| "json_encode E (VStr s) = Inr (VStr s)"
| "json_encode E (VList xs) = map_sum id VList (sequence_sum (map (json_encode E) xs))"
| "json_encode E (VDict d) =
     map_sum id VDict
       (sequence_sum (map (\<lambda>(k, v). map_sum id (Pair k) (json_encode E v)) d))"
| "json_encode E (VKey k) = Inr (decode_key E k)"
| "json_encode E (VDateTime t) = Inr (VStr (isoformat E t))"
| "json_encode E (VDate t) = Inl (Exn TypeError ''date is not JSON serializable'')"
| "json_encode E (VTime t) = Inl (Exn TypeError ''time is not JSON serializable'')"
| "json_encode E (VModel m) =
     (case default_model E m of
        Inl e \<Rightarrow> Inl e
      | Inr d \<Rightarrow> json_encode E d)"
  by pat_completeness auto
termination
proof (relation "measures [\<lambda>(E, v). models_in v, \<lambda>(E, v). size v]", goal_cases)
  case 1
  show ?case by simp
next
  case (2 E xs x)
  then have "models_in x \<le> sum_list (map models_in xs)" 
    by (simp add: member_le_sum_list)
  moreover from 2 have "size x < Suc (size_list size xs)"
    by (simp add: less_Suc_eq_le size_list_estimation')
  ultimately show ?case by auto
next
  case (3 E d x k v)
  then have "(k, v) \<in> set d" by simp
  then have "models_in v \<le> sum_list (map (\<lambda>(k, v). models_in v) d)"
    and "size v < Suc (size_list (size_prod (\<lambda>x. 0) size) d)"
    by (induction d) auto
  then show ?case by auto
next
  case (4 E m d)
  then show ?case by (auto dest: default_model_models)
qed

subsection \<open>Encoding and decoding again\<close>

text \<open>
  The class after an entity of it was encoded: \<^verbatim>\<open>translate_property_names\<close>
  has merged the output table into the dictionary \<^verbatim>\<open>translate_property_names\<close>
  of its \<^verbatim>\<open>RESTMeta\<close>, when that is declared. The translation table a call of
  \<^verbatim>\<open>translate_property_names\<close> uses for a class, empty without a
  \<^verbatim>\<open>RESTMeta\<close>.
\<close>

definition class_after_encode :: "model_class \<Rightarrow> model_class" where
  "class_after_encode cls =
     ModelClass (cls_kind cls) (cls_properties cls)
       (map_option (\<lambda>m. meta_after_translate m Output) (cls_RESTMeta cls))"

definition table_of :: "model_class \<Rightarrow> input_type \<Rightarrow> (string \<times> string) list" where
  "table_of cls d = (case cls_RESTMeta cls of None \<Rightarrow> [] | Some m \<Rightarrow> translation_table m d)"

text \<open>
  A key that the decoder reads back from what the encoder writes for it. For a kind
  without \<^verbatim>\<open>use_input_id\<close> the encoder writes \<^verbatim>\<open>key.urlsafe()\<close>, which
  \<^verbatim>\<open>ndb.Key(urlsafe=...)\<close> has to read as the same key. For a kind with
  \<^verbatim>\<open>use_input_id\<close> it writes the string identifier; \<^verbatim>\<open>_value_to_property\<close>
  rebuilds the key from it when \<^verbatim>\<open>ndb.Key(urlsafe=...)\<close> raises a
  \<^verbatim>\<open>ProtocolBufferDecodeError\<close> on the identifier and the property declares the
  kind of the key.
\<close>

definition key_round_trips :: "env \<Rightarrow> string option \<Rightarrow> key \<Rightarrow> bool" where
  "key_round_trips E kind k =
     (case kind_map E (key_kind k) of
        None \<Rightarrow> key_from_urlsafe E (VStr (key_urlsafe E k)) = Inr k
      | Some mc \<Rightarrow>
          if uses_input_id mc then
            (case key_ident k of
               IntId n \<Rightarrow> False
             | StrId s \<Rightarrow>
                 (case key_from_urlsafe E (VStr s) of
                    Inr k' \<Rightarrow> k' = k
                  | Inl e \<Rightarrow>
                      exn_cls e = ProtocolBufferDecodeError \<and> kind = Some (key_kind k)
                      \<and> cls_kind mc = key_kind k))
          else key_from_urlsafe E (VStr (key_urlsafe E k)) = Inr k)"

text \<open>
  The values of a string, integer, datetime or key property for which the theorem on the
  round trip is stated: \<^verbatim>\<open>None\<close> or a string, \<^verbatim>\<open>None\<close> or an integer,
  a \<^verbatim>\<open>datetime\<close> that \<^verbatim>\<open>dateutil.parser.parse\<close> reads back from its
  \<^verbatim>\<open>isoformat()\<close>, \<^verbatim>\<open>None\<close> or a key that is read back; for a repeated
  property, a list of such values.
\<close>

fun round_trips1 :: "env \<Rightarrow> prop_type \<Rightarrow> val \<Rightarrow> bool" where
  "round_trips1 E StringProperty v = (case v of VNone \<Rightarrow> True | VStr s \<Rightarrow> True | _ \<Rightarrow> False)"
| "round_trips1 E IntegerProperty v = (case v of VNone \<Rightarrow> True | VInt n \<Rightarrow> True | _ \<Rightarrow> False)"
| "round_trips1 E DateTimeProperty v =
     (case v of
        VDateTime t \<Rightarrow> dateutil_parse E (VStr (isoformat E t)) = Inr (VDateTime t)
      | _ \<Rightarrow> False)"
| "round_trips1 E (KeyProperty kind) v =
     (case v of VNone \<Rightarrow> True | VKey k \<Rightarrow> key_round_trips E kind k | _ \<Rightarrow> False)"
| "round_trips1 E DateProperty v = False"
| "round_trips1 E TimeProperty v = False"
| "round_trips1 E (StructuredProperty mc) v = False"
| "round_trips1 E OtherProperty v = False"

definition round_trips :: "env \<Rightarrow> property \<Rightarrow> val \<Rightarrow> bool" where
  "round_trips E pr v =
     (if p_repeated pr
      then (case v of VList vs \<Rightarrow> list_all (round_trips1 E (p_type pr)) vs | _ \<Rightarrow> False)
      else round_trips1 E (p_type pr) v)"

text \<open>
  The input translation undoes the output translation: after the encoding, the class
  translates input with the table it translated the output with; no name is translated
  twice, and the new names are fresh: none is an old name, a property of the class or
  \<^verbatim>\<open>id\<close>.
\<close>

definition inverse_translation :: "model_class \<Rightarrow> bool" where
  "inverse_translation cls =
     (let table = table_of cls Output
      in table_of (class_after_encode cls) Input = table
         \<and> distinct (map fst table) \<and> distinct (map snd table)
         \<and> set (map fst table) \<inter> set (map snd table) = {}
         \<and> set (map snd table) \<inter> set (map fst (cls_properties cls)) = {}
         \<and> ''id'' \<notin> set (map fst table) \<and> ''id'' \<notin> set (map snd table))"

text \<open>
  No owner is assigned to the entity built: nobody is logged in, or the class declares no
  \<^verbatim>\<open>user_owner_property\<close>.
\<close>

definition no_owner_injection :: "handler \<Rightarrow> model_class \<Rightarrow> bool" where
  "no_owner_injection h cls =
     (h_user h = None
      \<or> (case cls_RESTMeta cls of None \<Rightarrow> True | Some m \<Rightarrow> user_owner_property m = None))"

text \<open>
  What the encoder writes for a value of such a property, and the effect of the loop of
  \<^verbatim>\<open>translate_property_names\<close> on a dictionary seen as a map: each pair of the
  table moves the value under one name to the other name.
\<close>

fun wire :: "env \<Rightarrow> val \<Rightarrow> val" where
  "wire E (VKey k) = decode_key E k"
| "wire E (VDateTime t) = VStr (isoformat E t)"
| "wire E (VList xs) = VList (map (wire E) xs)"
| "wire E v = v"

definition move_key :: "string \<Rightarrow> string \<Rightarrow> (string \<rightharpoonup> 'v) \<Rightarrow> (string \<rightharpoonup> 'v)" where
  "move_key src dst f = (case f src of None \<Rightarrow> f | Some v \<Rightarrow> (f(src := None))(dst \<mapsto> v))"

definition translate_map ::
  "input_type \<Rightarrow> (string \<times> string) list \<Rightarrow> (string \<rightharpoonup> 'v) \<Rightarrow> (string \<rightharpoonup> 'v)" where
  "translate_map d table f =
     fold (\<lambda>p. move_key (case d of Output \<Rightarrow> fst p | Input \<Rightarrow> snd p)
                        (case d of Output \<Rightarrow> snd p | Input \<Rightarrow> fst p)) table f"

section \<open>Example configurations\<close>

definition no_meta :: rest_meta where
  "no_meta =
     \<lparr> included_input_properties = None, included_output_properties = None,
       included_properties = None, excluded_input_properties = None,
       excluded_output_properties = None, excluded_properties = None,
       translate_property_names = None, translate_input_property_names = None,
       translate_output_property_names = None, use_input_id = False,
       user_owner_property = None, admin_property = None \<rparr>"

text \<open>
  A model with two string properties that takes client-supplied identifiers and accepts
  only \<^verbatim>\<open>name\<close> as input; \<^verbatim>\<open>age\<close> is excluded in both directions.
\<close>

definition city_meta :: rest_meta where
  "city_meta =
     no_meta \<lparr> included_input_properties := Some [''name''],
       excluded_properties := Some [''age''], use_input_id := True \<rparr>"

definition city_cls :: model_class where
  "city_cls =
     ModelClass ''City''
       [(''name'', Property StringProperty False), (''age'', Property IntegerProperty False)]
       (Some city_meta)"

text \<open>
  A user model with an admin flag, and three users: two plain users and an admin.
\<close>

definition user_cls :: model_class where
  "user_cls =
     ModelClass ''User''
       [(''name'', Property StringProperty False), (''is_admin'', Property OtherProperty False)]
       (Some (no_meta \<lparr> admin_property := Some ''is_admin'' \<rparr>))"

definition alice_key :: key where
  "alice_key = Key ''User'' (IntId 1)"

definition bob_key :: key where
  "bob_key = Key ''User'' (IntId 2)"

definition alice :: entity where
  "alice = Entity user_cls (Some alice_key) [(''name'', VStr ''alice''), (''is_admin'', VBool False)]"

definition bob :: entity where
  "bob = Entity user_cls (Some bob_key) [(''name'', VStr ''bob''), (''is_admin'', VBool False)]"

definition root_key :: key where
  "root_key = Key ''User'' (IntId 3)"

definition root :: entity where
  "root = Entity user_cls (Some root_key) [(''name'', VStr ''root''), (''is_admin'', VBool True)]"

text \<open>
  A model of notes with an owner, served with every method under
  \<^verbatim>\<open>PERMISSION_OWNER_USER\<close>, and a request of \<open>alice\<close>.
\<close>

definition note_cls :: model_class where
  "note_cls =
     ModelClass ''Note''
       [(''title'', Property StringProperty False),
        (''owner'', Property (KeyProperty (Some ''User'')) False)]
       (Some (no_meta \<lparr> user_owner_property := Some ''owner'' \<rparr>))"

definition owner_handler :: handler where
  "owner_handler =
     \<lparr> h_model = note_cls,
       h_permissions =
         [(''OPTIONS'', PERMISSION_ANYONE), (''GET'', PERMISSION_OWNER_USER),
          (''POST'', PERMISSION_LOGGED_IN_USER), (''PUT'', PERMISSION_OWNER_USER),
          (''DELETE'', PERMISSION_OWNER_USER)],
       h_user = Some alice,
       get_callback = None, post_callback = None, put_callback = None, delete_callback = None,
       request_GET = [], request_body = [], request_path_url = ''http://host/notes'' \<rparr>"

text \<open>
  Two stored notes, one of each plain user, and a datastore with the notes and the users.
\<close>

definition note1_key :: key where
  "note1_key = Key ''Note'' (IntId 1)"

definition note2_key :: key where
  "note2_key = Key ''Note'' (IntId 2)"

definition note1 :: entity where
  "note1 = Entity note_cls (Some note1_key) [(''title'', VStr ''milk''), (''owner'', VKey alice_key)]"

definition note2 :: entity where
  "note2 = Entity note_cls (Some note2_key) [(''title'', VStr ''eggs''), (''owner'', VKey bob_key)]"

definition notes_ds :: datastore where
  "notes_ds = [(note1_key, note1), (note2_key, note2), (alice_key, alice), (bob_key, bob)]"

text \<open>
  An instance of the collaborators: reference tokens, timestamps and request bodies are
  read from small tables, \<^verbatim>\<open>int\<close> reads an optional minus sign and decimal
  digits, NDB accepts every value, the other attributes of a class are three methods. \<^verbatim>\<open>Cursor(urlsafe=...)\<close> raises
  \<^verbatim>\<open>BadValueError\<close> for a text that is no base64 text and accepts every other;
  \<^verbatim>\<open>fetch_page\<close> raises \<^verbatim>\<open>ValueError\<close> for a limit of 2147483648 or
  more, \<^verbatim>\<open>BadValueError\<close> for a cursor whose bytes are no resume point, and
  \<^verbatim>\<open>BadRequestError\<close> for a cursor with keys of another kind than the query.
\<close>

definition urlsafe_table :: "(string \<times> key) list" where
  "urlsafe_table =
     [(''K-alice'', alice_key), (''K-bob'', bob_key), (''K-root'', root_key),
      (''K-note1'', note1_key), (''K-note2'', note2_key)]"

definition iso_table :: "(string \<times> nat) list" where
  "iso_table = [(''2020-01-02T03:04:05'', 1577934245), (''1970-01-01T00:00:00'', 0)]"

definition json_table :: "(string \<times> val) list" where
  "json_table =
     [(''{title: tea}'', VDict [(''title'', VStr ''tea'')]),
      (''{title: tea, owner: K-bob}'', VDict [(''title'', VStr ''tea''), (''owner'', VStr ''K-bob'')]),
      (''{owner: K-bob}'', VDict [(''owner'', VStr ''K-bob'')]),
      (''{title: tea, colour: red}'', VDict [(''title'', VStr ''tea''), (''colour'', VStr ''red'')]),
      (''{holder: eva, balance: 1000}'',
         VDict [(''holder'', VStr ''eva''), (''balance'', VInt 1000)]),
      (''[{id: K-note1, title: tea}, {title: jam}]'',
         VList [VDict [(''id'', VStr ''K-note1''), (''title'', VStr ''tea'')],
                VDict [(''title'', VStr ''jam'')]]),
      (''[{id: K-note1, title: tea}, {id: K-note1, title: jam}]'',
         VList [VDict [(''id'', VStr ''K-note1''), (''title'', VStr ''tea'')],
                VDict [(''id'', VStr ''K-note1''), (''title'', VStr ''jam'')]])]"

fun digits_value :: "nat \<Rightarrow> string \<Rightarrow> nat option" where
  "digits_value acc [] = Some acc"
| "digits_value acc (c # cs) =
     (let n = (of_char c :: nat)
      in if 48 \<le> n \<and> n \<le> 57 then digits_value (10 * acc + (n - 48)) cs else None)"

definition example_int :: "string \<Rightarrow> int option" where
  "example_int s =
     (case s of
        [] \<Rightarrow> None
      | c # cs \<Rightarrow>
          if c = CHR ''-'' then (if cs = [] then None else map_option (\<lambda>n. - int n) (digits_value 0 cs))
          else map_option int (digits_value 0 s))"

definition E0 :: env where
  "E0 =
     \<lparr> kind_map = map_of [(''User'', user_cls), (''Note'', note_cls), (''City'', city_cls)],
       key_from_urlsafe =
         (\<lambda>v. case v of
                VStr s \<Rightarrow>
                  (case map_of urlsafe_table s of
                     Some k \<Rightarrow> Inr k
                   | None \<Rightarrow> Inl (Exn ProtocolBufferDecodeError ''truncated''))
              | _ \<Rightarrow> Inl (Exn TypeError ''expected a string'')),
       key_urlsafe =
         (\<lambda>k. case map_of (map (\<lambda>(s, k). (k, s)) urlsafe_table) k of
                Some s \<Rightarrow> s
              | None \<Rightarrow> ''K-other''),
       dateutil_parse =
         (\<lambda>v. case v of
                VStr s \<Rightarrow>
                  (case map_of iso_table s of
                     Some t \<Rightarrow> Inr (VDateTime t)
                   | None \<Rightarrow> Inl (Exn ValueError ''Unknown string format''))
              | _ \<Rightarrow> Inl (Exn AttributeError ''read'')),
       isoformat =
         (\<lambda>t. case map_of (map (\<lambda>(s, t). (t, s)) iso_table) t of
                Some s \<Rightarrow> s
              | None \<Rightarrow> ''1970-01-01T00:00:00''),
       py_str = (\<lambda>v. case v of VStr s \<Rightarrow> s | _ \<Rightarrow> ''<object>''),
       py_int = example_int,
       json_loads = map_of json_table,
       ndb_validate = (\<lambda>p v. None),
       ndb_put_check = (\<lambda>m. None),
       gql_check = (\<lambda>cls s. None),
       gql_eval = (\<lambda>s m. True),
       cursor_from_urlsafe =
         (\<lambda>s. if s = ''c-note1'' then Inr (Cursor [note1_key])
              else if s = ''c-alice'' then Inr (Cursor [alice_key])
              else if s = ''junk'' then Inr (RawCursor ''junk'')
              else Inl (Exn BadValueError ''Invalid cursor'')),
       cursor_urlsafe =
         (\<lambda>c. case c of
                RawCursor s \<Rightarrow> s
              | Cursor ks \<Rightarrow> if ks = [note1_key] then ''c-note1'' else ''c-other''),
       fetch_page_raises =
         (\<lambda>q limit c.
            if 2147483648 \<le> limit then Some (Exn ValueError ''limit out of range'')
            else
              (case c of
                 None \<Rightarrow> None
               | Some (RawCursor s) \<Rightarrow> Some (Exn BadValueError ''invalid cursor'')
               | Some (Cursor ks) \<Rightarrow>
                   if list_all (\<lambda>k. key_kind k = q_kind q) ks then None
                   else Some (Exn BadRequestError ''cursor does not match query''))),
       val_less = (\<lambda>a b. case (a, b) of (VInt x, VInt y) \<Rightarrow> x < y | _ \<Rightarrow> False),
       urlencode = (\<lambda>ps. concat (map (\<lambda>(k, v). k @ ''='' @ v @ ''&'') ps)),
       other_attribute = (\<lambda>cls name. name \<in> set [''put'', ''query'', ''to_dict'']) \<rparr>"

text \<open>
  A model of accounts whose balance is not accepted as input, a stored account, and a
  PUT request of \<open>alice\<close> that names the balance.
\<close>

definition account_cls :: model_class where
  "account_cls =
     ModelClass ''Account''
       [(''holder'', Property StringProperty False), (''balance'', Property IntegerProperty False)]
       (Some (no_meta \<lparr> excluded_input_properties := Some [''balance''] \<rparr>))"

definition account1_key :: key where
  "account1_key = Key ''Account'' (IntId 1)"

definition account1 :: entity where
  "account1 =
     Entity account_cls (Some account1_key) [(''holder'', VStr ''ana''), (''balance'', VInt 10)]"

definition accounts_ds :: datastore where
  "accounts_ds = [(account1_key, account1)]"

definition account_put :: handler where
  "account_put =
     \<lparr> h_model = account_cls,
       h_permissions = [(''OPTIONS'', PERMISSION_ANYONE), (''PUT'', PERMISSION_LOGGED_IN_USER)],
       h_user = Some alice,
       get_callback = None, post_callback = None, put_callback = None, delete_callback = None,
       request_GET = [], request_body = ''{holder: eva, balance: 1000}'',
       request_path_url = ''http://host/accounts'' \<rparr>"

text \<open>A POST request for the cities, with nobody logged in.\<close>

definition city_post :: handler where
  "city_post =
     \<lparr> h_model = city_cls,
       h_permissions = [(''OPTIONS'', PERMISSION_ANYONE), (''POST'', PERMISSION_ANYONE)],
       h_user = None,
       get_callback = None, post_callback = None, put_callback = None, delete_callback = None,
       request_GET = [], request_body = [], request_path_url = ''http://host/cities'' \<rparr>"

text \<open>
  A POST of \<open>alice\<close> whose payload names another owner, two PUT requests of the admin,
  and a model with a structured property of notes.
\<close>

definition alice_post :: handler where
  "alice_post = owner_handler \<lparr> request_body := ''{title: tea, owner: K-bob}'' \<rparr>"

definition root_put :: handler where
  "root_put =
     \<lparr> h_model = note_cls,
       h_permissions = [(''OPTIONS'', PERMISSION_ANYONE), (''PUT'', PERMISSION_ADMIN)],
       h_user = Some root,
       get_callback = None, post_callback = None, put_callback = None, delete_callback = None,
       request_GET = [], request_body = ''{title: tea}'',
       request_path_url = ''http://host/notes'' \<rparr>"

definition root_put_owner :: handler where
  "root_put_owner = root_put \<lparr> request_body := ''{owner: K-bob}'' \<rparr>"

definition folder_cls :: model_class where
  "folder_cls =
     ModelClass ''Folder''
       [(''label'', Property StringProperty False),
        (''first'', Property (StructuredProperty note_cls) False)]
       None"

text \<open>
  Two elements of a batch PUT: an update of the first note, and an element without
  \<^verbatim>\<open>id\<close>; the first note after the update.
\<close>

definition tea_update :: val where
  "tea_update = VDict [(''id'', VStr ''K-note1''), (''title'', VStr ''tea'')]"

definition jam_update :: val where
  "jam_update = VDict [(''title'', VStr ''jam'')]"

definition note1_tea :: entity where
  "note1_tea =
     Entity note_cls (Some note1_key) [(''title'', VStr ''tea''), (''owner'', VKey alice_key)]"

text \<open>
  Two batch PUT requests of the admin: the first updates the first note and then names
  no entity, the second updates the first note twice.
\<close>

definition jam_update_note1 :: val where
  "jam_update_note1 = VDict [(''id'', VStr ''K-note1''), (''title'', VStr ''jam'')]"

definition note1_jam :: entity where
  "note1_jam =
     Entity note_cls (Some note1_key) [(''title'', VStr ''jam''), (''owner'', VKey alice_key)]"

definition root_batch :: handler where
  "root_batch = root_put \<lparr> request_body := ''[{id: K-note1, title: tea}, {title: jam}]'' \<rparr>"

definition root_twice :: handler where
  "root_twice =
     root_put \<lparr> request_body := ''[{id: K-note1, title: tea}, {id: K-note1, title: jam}]'' \<rparr>"

text \<open>
  A stored city, and a model of events with a datetime, a reference to a user, a repeated
  string property and a translated name, with a stored event and a POST request of
  \<open>alice\<close> for the events.
\<close>

definition paris_key :: key where
  "paris_key = Key ''City'' (StrId ''paris'')"

definition paris :: entity where
  "paris = Entity city_cls (Some paris_key) [(''name'', VStr ''Paris''), (''age'', VInt 2000)]"

definition event_cls :: model_class where
  "event_cls =
     ModelClass ''Event''
       [(''title'', Property StringProperty False),
        (''when'', Property DateTimeProperty False),
        (''host'', Property (KeyProperty (Some ''User'')) False),
        (''tags'', Property StringProperty True)]
       (Some (no_meta \<lparr> translate_property_names := Some [(''when'', ''start'')] \<rparr>))"

definition event1_key :: key where
  "event1_key = Key ''Event'' (IntId 1)"

definition event1 :: entity where
  "event1 =
     Entity event_cls (Some event1_key)
       [(''title'', VStr ''party''), (''when'', VDateTime 1577934245),
        (''host'', VKey alice_key), (''tags'', VList [VStr ''a'', VStr ''b''])]"

definition event_post :: handler where
  "event_post =
     \<lparr> h_model = event_cls,
       h_permissions = [(''OPTIONS'', PERMISSION_ANYONE), (''POST'', PERMISSION_LOGGED_IN_USER)],
       h_user = Some alice,
       get_callback = None, post_callback = None, put_callback = None, delete_callback = None,
       request_GET = [], request_body = [], request_path_url = ''http://host/events'' \<rparr>"

text \<open>
  A GET of the notes with a cursor token that is base64 text and no cursor.
\<close>

definition junk_cursor :: handler where
  "junk_cursor = owner_handler \<lparr> request_GET := [(''cursor'', ''junk'')] \<rparr>"


text \<open>The definitions a concrete evaluation unfolds.\<close>

lemmas example_defs =
  E0_def note_cls_def user_cls_def city_cls_def city_meta_def account_cls_def no_meta_def
  owner_handler_def account_put_def alice_def bob_def root_def alice_key_def bob_key_def
  root_key_def note1_def note2_def note1_key_def note2_key_def notes_ds_def account1_def
  account1_key_def accounts_ds_def urlsafe_table_def iso_table_def json_table_def city_post_def

text \<open>
  A person with a date of birth, and the event with its datetime unset.
\<close>

definition person_cls :: model_class where
  "person_cls =
     ModelClass ''Person''
       [(''name'', Property StringProperty False), (''born'', Property DateProperty False)]
       None"

definition ada_key :: key where
  "ada_key = Key ''Person'' (IntId 1)"

definition ada :: entity where
  "ada = Entity person_cls (Some ada_key) [(''name'', VStr ''Ada''), (''born'', VDate 18263)]"

definition event_unset :: entity where
  "event_unset =
     Entity event_cls (Some event1_key)
       [(''title'', VStr ''party''), (''when'', VNone),
        (''host'', VKey alice_key), (''tags'', VList [VStr ''a'', VStr ''b''])]"


section \<open>Theorems: property projection\<close>

text \<open>
  C6, as the specification states it, fails: with an inclusion set declared the result is
  said to hold only names from that set, but for input under \<^verbatim>\<open>use_input_id\<close>
  the identifier \<^verbatim>\<open>id\<close> is in the result although the declared inclusion set
  of \<open>city_cls\<close> is \<open>{name}\<close>.
\<close>

theorem get_included_properties_counterexample:
  "declared_included city_cls Input = {''name''} \<and>
   \<not> get_included_properties city_cls Input \<subseteq> declared_included city_cls Input"
  by (simp add: get_included_properties_def declared_included_def city_cls_def city_meta_def
      no_meta_def included_for_def excluded_for_def getattr_list_def
      DEFAULT_EXCLUDED_INPUT_PROPERTIES_def)

text \<open>
  C6, amended. For every model and direction the result is the declared inclusions (all
  the properties of the model when none is declared or the declared set is empty),
  together with \<^verbatim>\<open>id\<close> for input under \<^verbatim>\<open>use_input_id\<close>, minus the
  declared and the built-in exclusions. So the result holds no declared excluded name and
  no built-in excluded name, and when the declared inclusion set is not empty it holds
  only names of that set and, for input under \<^verbatim>\<open>use_input_id\<close>, \<^verbatim>\<open>id\<close>.
\<close>

theorem get_included_properties_spec:
  "get_included_properties model d =
     ((if declared_included model d = {} then set (map fst (cls_properties model))
       else declared_included model d) \<union> forced_id model d)
     - (declared_excluded model d \<union> default_excluded d)
   \<and> get_included_properties model d \<inter> declared_excluded model d = {}
   \<and> get_included_properties model d \<inter> default_excluded d = {}
   \<and> (declared_included model d \<noteq> {} \<longrightarrow>
        get_included_properties model d \<subseteq> declared_included model d \<union> forced_id model d)"
proof -
  have eq: "get_included_properties model d =
     ((if declared_included model d = {} then set (map fst (cls_properties model))
       else declared_included model d) \<union> forced_id model d)
     - (declared_excluded model d \<union> default_excluded d)"
    by (cases d; cases "cls_RESTMeta model")
       (auto simp: get_included_properties_def declared_included_def declared_excluded_def
          default_excluded_def forced_id_def Let_def)
  show ?thesis
    unfolding eq by auto
qed

theorem get_included_properties_spec_witness:
  "declared_included city_cls Input \<noteq> {} \<and>
   get_included_properties city_cls Input = {''name'', ''id''} \<and>
   get_included_properties city_cls Input \<subseteq> {''name'', ''id''}"
proof -
  have ne: "declared_included city_cls Input \<noteq> {}"
    by (simp add: declared_included_def city_cls_def city_meta_def no_meta_def
        included_for_def getattr_list_def)
  have inc: "declared_included city_cls Input = {''name''}"
    by (simp add: declared_included_def city_cls_def city_meta_def no_meta_def
        included_for_def getattr_list_def)
  have fid: "forced_id city_cls Input = {''id''}"
    by (simp add: forced_id_def city_cls_def city_meta_def no_meta_def)
  have exc: "declared_excluded city_cls Input = {''age''}"
    by (simp add: declared_excluded_def city_cls_def city_meta_def no_meta_def
        excluded_for_def getattr_list_def)
  have dex: "default_excluded Input = {''class_''}"
    by (simp add: default_excluded_def DEFAULT_EXCLUDED_INPUT_PROPERTIES_def)
  from get_included_properties_spec [of city_cls Input] ne
  have "get_included_properties city_cls Input =
          (declared_included city_cls Input \<union> forced_id city_cls Input)
          - (declared_excluded city_cls Input \<union> default_excluded Input)"
    and "get_included_properties city_cls Input
          \<subseteq> declared_included city_cls Input \<union> forced_id city_cls Input"
    by simp_all
  then show ?thesis
    using ne by (auto simp: inc fid exc dex)
qed

section \<open>Theorems: the permission gate\<close>

lemmas permission_defs =
  PERMISSION_ANYONE_def PERMISSION_LOGGED_IN_USER_def PERMISSION_OWNER_USER_def
  PERMISSION_ADMIN_def

text \<open>
  C4. The claim holds of every request but one kind. A request whose URL ends in a slash
  after the resource (\<^verbatim>\<open>model_id = '/'\<close>, which the route accepts) addresses no
  entity, and under \<^verbatim>\<open>PERMISSION_OWNER_USER\<close> with a logged-in user the claim
  lets it pass. The wrapper takes the branch of an addressed entity,
  \<^verbatim>\<open>_model_id_to_model('')\<close> returns \<^verbatim>\<open>None\<close>, and
  \<^verbatim>\<open>get_model_owner(None)\<close> raises an \<^verbatim>\<open>AttributeError\<close> that nothing
  catches: the wrapped method is never called.
\<close>

theorem rest_method_wrapper_trailing_slash:
  "rest_method_wrapper E owner_handler ''GET'' func ''/'' ds =
     (Uncaught (Exn AttributeError ''NoneType object has no attribute owner''), ds)"
  by (simp add: rest_method_wrapper_def owner_handler_def permission_defs model_id_to_model_def
      not_owned_def get_model_owner_def h_user_owner_property_def getattr_model_def note_cls_def
      no_meta_def on_exception_def)

text \<open>
  The same request without the slash reaches the wrapped method with no entity, and so
  does the request with the slash under any level but \<^verbatim>\<open>PERMISSION_OWNER_USER\<close>.
\<close>

lemma rest_method_wrapper_no_id:
  "rest_method_wrapper E owner_handler ''GET'' func [] ds =
     (case func None ds of
        (Inl e, ds') \<Rightarrow> (on_exception e, ds')
      | (Inr result, ds') \<Rightarrow> (Success result, ds'))"
  by (simp add: rest_method_wrapper_def owner_handler_def permission_defs)


text \<open>
  The rules of the gate, one lemma for each outcome, in the order of the source: 405
  for a method without a permission, 401 for a level that needs a user when nobody is
  logged in, 403 for the admin level and a user who is no admin, 403 for the owner level
  and an addressed entity of another owner, and otherwise the wrapped method runs.
\<close>

lemma permissions_distinct:
  "PERMISSION_ADMIN \<noteq> PERMISSION_OWNER_USER" "PERMISSION_OWNER_USER \<noteq> PERMISSION_ADMIN"
  "PERMISSION_ADMIN \<noteq> PERMISSION_LOGGED_IN_USER" "PERMISSION_LOGGED_IN_USER \<noteq> PERMISSION_ADMIN"
  "PERMISSION_OWNER_USER \<noteq> PERMISSION_LOGGED_IN_USER" "PERMISSION_LOGGED_IN_USER \<noteq> PERMISSION_OWNER_USER"
  "PERMISSION_ANYONE \<noteq> PERMISSION_LOGGED_IN_USER" "PERMISSION_ANYONE \<noteq> PERMISSION_OWNER_USER"
  "PERMISSION_ANYONE \<noteq> PERMISSION_ADMIN"
  by (simp_all add: permission_defs)

lemma gate_method_not_allowed:
  "map_of (h_permissions h) method_name = None \<Longrightarrow>
   rest_method_wrapper E h method_name func model_id ds = (MethodNotAllowed, ds)"
  by (simp add: rest_method_wrapper_def)

lemma gate_unauthorized:
  "map_of (h_permissions h) method_name = Some permission \<Longrightarrow>
   permission \<in> {PERMISSION_LOGGED_IN_USER, PERMISSION_OWNER_USER, PERMISSION_ADMIN} \<Longrightarrow>
   h_user h = None \<Longrightarrow>
   rest_method_wrapper E h method_name func model_id ds = (Unauthorized, ds)"
  by (simp add: rest_method_wrapper_def)

lemma gate_not_admin:
  "map_of (h_permissions h) method_name = Some PERMISSION_ADMIN \<Longrightarrow>
   h_user h = Some u \<Longrightarrow> is_user_admin h = Inr False \<Longrightarrow>
   rest_method_wrapper E h method_name func model_id ds = (PermissionDenied None, ds)"
  by (simp add: rest_method_wrapper_def)

lemma gate_not_owner:
  "map_of (h_permissions h) method_name = Some PERMISSION_OWNER_USER \<Longrightarrow>
   h_user h = Some u \<Longrightarrow> model_id \<noteq> [] \<Longrightarrow>
   model_id_to_model E h ds (VStr (tl model_id)) = Inr (Some m) \<Longrightarrow>
   not_owned h (Some m) = Inr True \<Longrightarrow>
   rest_method_wrapper E h method_name func model_id ds = (PermissionDenied None, ds)"
  by (simp add: rest_method_wrapper_def permissions_distinct)

lemma gate_allowed_collection:
  "map_of (h_permissions h) method_name = Some permission \<Longrightarrow>
   permission \<in> {PERMISSION_LOGGED_IN_USER, PERMISSION_OWNER_USER, PERMISSION_ADMIN} \<longrightarrow>
     h_user h \<noteq> None \<Longrightarrow>
   permission = PERMISSION_ADMIN \<longrightarrow> is_user_admin h = Inr True \<Longrightarrow>
   rest_method_wrapper E h method_name func [] ds =
     (case func None ds of
        (Inl e, ds') \<Rightarrow> (on_exception e, ds')
      | (Inr result, ds') \<Rightarrow> (Success result, ds'))"
  by (cases "permission = PERMISSION_ADMIN") (auto simp: rest_method_wrapper_def)

lemma gate_allowed_entity:
  "map_of (h_permissions h) method_name = Some permission \<Longrightarrow>
   permission \<in> {PERMISSION_LOGGED_IN_USER, PERMISSION_OWNER_USER, PERMISSION_ADMIN} \<longrightarrow>
     h_user h \<noteq> None \<Longrightarrow>
   permission = PERMISSION_ADMIN \<longrightarrow> is_user_admin h = Inr True \<Longrightarrow>
   model_id \<noteq> [] \<Longrightarrow>
   model_id_to_model E h ds (VStr (tl model_id)) = Inr (Some m) \<Longrightarrow>
   permission = PERMISSION_OWNER_USER \<longrightarrow> not_owned h (Some m) = Inr False \<Longrightarrow>
   rest_method_wrapper E h method_name func model_id ds =
     (case func (Some m) ds of
        (Inl e, ds') \<Rightarrow> (on_exception e, ds')
      | (Inr result, ds') \<Rightarrow> (Success result, ds'))"
  by (cases "permission = PERMISSION_ADMIN"; cases "permission = PERMISSION_OWNER_USER")
     (auto simp: rest_method_wrapper_def)


section \<open>Theorems: fetching a page\<close>

lemma fetch_page_more_cursor:
  assumes "fetch_page E ds q limit start = Inr (results, c', True)" and "0 < limit"
  shows "c' \<noteq> None"
proof -
  let ?rest = "undelivered E ds q start"
  from assms(1) have more: "limit < length ?rest" and res: "results = take limit ?rest"
    and c': "c' = (if results = [] then None
                   else Some (Cursor (cursor_keys start @ List.map_filter ent_key results)))"
    by (auto simp: fetch_page_def Let_def split: if_splits option.splits)
  from more assms(2) have "?rest \<noteq> []" by auto
  with res assms(2) have "results \<noteq> []" by (cases limit) auto
  with c' show ?thesis by simp
qed

lemma fetch_limit_positive: "fetch_limit E h = Inr limit \<Longrightarrow> 0 < limit"
  by (auto simp: fetch_limit_def DEFAULT_MAX_QUERY_RESULTS_def split: if_splits option.splits)

lemma fetch_limit_cases:
  "fetch_limit E h =
     (if GET_missing h ''limit'' then Inr 1000
      else (case py_int E (GET_text h ''limit'') of
              None \<Rightarrow> Inl (Exn RESTException
                    (''Invalid '' @ [CHR 0x22] @ ''limit'' @ [CHR 0x22] @ '' parameter - ''
                     @ GET_text h ''limit''))
            | Some n \<Rightarrow>
                if 0 < n then Inr (nat n)
                else Inl (Exn RESTException
                    (''Invalid '' @ [CHR 0x22] @ ''limit'' @ [CHR 0x22] @ '' parameter - ''
                     @ GET_text h ''limit''))))"
  by (simp add: fetch_limit_def DEFAULT_MAX_QUERY_RESULTS_def split: option.splits)

lemma fetch_page_cases:
  "fetch_page E ds q limit start =
     (case fetch_page_raises E q limit start of
        Some e \<Rightarrow> Inl e
      | None \<Rightarrow>
          Inr (take limit (undelivered E ds q start),
               if take limit (undelivered E ds q start) = [] then None
               else Some (Cursor (cursor_keys start
                                  @ List.map_filter ent_key (take limit (undelivered E ds q start)))),
               limit < length (undelivered E ds q start)))"
  by (simp add: fetch_page_def Let_def split: option.splits)


text \<open>
  C7. \<^verbatim>\<open>_fetch_query\<close> takes the limit 1000 when none is given, and refuses with a
  \<^verbatim>\<open>RESTException\<close> a limit that \<^verbatim>\<open>int\<close> does not read or reads as zero
  or less. Of the cursor it refuses what its two \<^verbatim>\<open>except\<close> clauses catch: a token
  for which \<^verbatim>\<open>Cursor(urlsafe=...)\<close> raises \<^verbatim>\<open>BadValueError\<close>, and a cursor
  for which \<^verbatim>\<open>fetch_page\<close> raises \<^verbatim>\<open>BadRequestError\<close>. Every other
  exception of the two calls leaves the method as it is: a token that
  \<^verbatim>\<open>Cursor(urlsafe=...)\<close> accepts and \<^verbatim>\<open>fetch_page\<close> refuses with a
  \<^verbatim>\<open>BadValueError\<close> is not answered with a \<^verbatim>\<open>RESTException\<close>, where the
  claim asks for one. When a page is delivered it holds the first results, up to the
  limit, that were not delivered before the cursor, and the cursor returned is
  \<^verbatim>\<open>None\<close> exactly when no more results are left after the page.
\<close>

theorem fetch_query_spec:
  "(GET_missing h ''limit'' \<longrightarrow> fetch_limit E h = Inr 1000)
   \<and> (\<not> GET_missing h ''limit''
        \<and> (\<forall>n. py_int E (GET_text h ''limit'') = Some n \<longrightarrow> n \<le> 0) \<longrightarrow>
        (\<exists>msg. fetch_query E h ds q = Inl (Exn RESTException msg)))
   \<and> (\<forall>n. \<not> GET_missing h ''limit'' \<and> py_int E (GET_text h ''limit'') = Some n \<and> 0 < n \<longrightarrow>
        fetch_limit E h = Inr (nat n))
   \<and> (GET_missing h ''cursor'' \<longrightarrow> fetch_cursor E h = Inr None)
   \<and> (\<forall>c. \<not> GET_missing h ''cursor'' \<and> cursor_from_urlsafe E (GET_text h ''cursor'') = Inr c \<longrightarrow>
        fetch_cursor E h = Inr (Some c))
   \<and> (\<forall>limit e. fetch_limit E h = Inr limit \<and> \<not> GET_missing h ''cursor''
          \<and> cursor_from_urlsafe E (GET_text h ''cursor'') = Inl e \<longrightarrow>
        fetch_query E h ds q = Inl (if exn_cls e = BadValueError then invalid_cursor h else e))
   \<and> (\<forall>limit start e. fetch_limit E h = Inr limit \<and> fetch_cursor E h = Inr start
          \<and> fetch_page_raises E q limit start = Some e \<longrightarrow>
        fetch_query E h ds q = Inl (if exn_cls e = BadRequestError then invalid_cursor h else e))
   \<and> (\<forall>limit start. fetch_limit E h = Inr limit \<and> fetch_cursor E h = Inr start
          \<and> fetch_page_raises E q limit start = None \<longrightarrow>
        fetch_query E h ds q =
          Inr (take limit (undelivered E ds q start),
               if limit < length (undelivered E ds q start)
               then Some (Cursor (cursor_keys start
                                  @ List.map_filter ent_key (take limit (undelivered E ds q start))))
               else None))
   \<and> (\<forall>results c. fetch_query E h ds q = Inr (results, c) \<longrightarrow>
        (\<exists>limit start.
            fetch_limit E h = Inr limit \<and> fetch_cursor E h = Inr start
            \<and> results = take limit (undelivered E ds q start)
            \<and> (c = None \<longleftrightarrow> length (undelivered E ds q start) \<le> limit)))
   \<and> exn_cls (invalid_cursor h) = RESTException"
proof (intro conjI impI allI)
  assume "GET_missing h ''limit''"
  then show "fetch_limit E h = Inr 1000" by (simp add: fetch_limit_cases)
next
  assume a: "\<not> GET_missing h ''limit''
             \<and> (\<forall>n. py_int E (GET_text h ''limit'') = Some n \<longrightarrow> n \<le> 0)"
  then have "\<exists>msg. fetch_limit E h = Inl (Exn RESTException msg)"
    by (auto simp: fetch_limit_cases split: option.splits)
  then show "\<exists>msg. fetch_query E h ds q = Inl (Exn RESTException msg)"
    by (auto simp: fetch_query_def)
next
  fix n
  assume "\<not> GET_missing h ''limit'' \<and> py_int E (GET_text h ''limit'') = Some n \<and> 0 < n"
  then show "fetch_limit E h = Inr (nat n)" by (simp add: fetch_limit_cases)
next
  assume "GET_missing h ''cursor''"
  then show "fetch_cursor E h = Inr None" by (simp add: fetch_cursor_def)
next
  fix c
  assume "\<not> GET_missing h ''cursor'' \<and> cursor_from_urlsafe E (GET_text h ''cursor'') = Inr c"
  then show "fetch_cursor E h = Inr (Some c)" by (simp add: fetch_cursor_def)
next
  fix limit e
  assume "fetch_limit E h = Inr limit \<and> \<not> GET_missing h ''cursor''
          \<and> cursor_from_urlsafe E (GET_text h ''cursor'') = Inl e"
  then show "fetch_query E h ds q
             = Inl (if exn_cls e = BadValueError then invalid_cursor h else e)"
    by (simp add: fetch_query_def fetch_cursor_def)
next
  fix limit start e
  assume "fetch_limit E h = Inr limit \<and> fetch_cursor E h = Inr start
          \<and> fetch_page_raises E q limit start = Some e"
  then show "fetch_query E h ds q
             = Inl (if exn_cls e = BadRequestError then invalid_cursor h else e)"
    by (simp add: fetch_query_def fetch_page_cases)
next
  fix limit start
  assume a: "fetch_limit E h = Inr limit \<and> fetch_cursor E h = Inr start
          \<and> fetch_page_raises E q limit start = None"
  then have pos: "0 < limit" by (auto dest: fetch_limit_positive)
  then have "limit < length (undelivered E ds q start) \<Longrightarrow>
             take limit (undelivered E ds q start) \<noteq> []"
    by (cases "undelivered E ds q start") auto
  with a pos show "fetch_query E h ds q =
          Inr (take limit (undelivered E ds q start),
               if limit < length (undelivered E ds q start)
               then Some (Cursor (cursor_keys start
                                  @ List.map_filter ent_key (take limit (undelivered E ds q start))))
               else None)"
    by (simp add: fetch_query_def fetch_page_cases)
next
  fix results c
  assume ok: "fetch_query E h ds q = Inr (results, c)"
  then obtain limit where l: "fetch_limit E h = Inr limit"
    by (cases "fetch_limit E h") (auto simp: fetch_query_def)
  from ok l obtain start where s: "fetch_cursor E h = Inr start"
    by (cases "fetch_cursor E h") (auto simp: fetch_query_def)
  from ok l s have n: "fetch_page_raises E q limit start = None"
    by (cases "fetch_page_raises E q limit start")
       (auto simp: fetch_query_def fetch_page_cases split: if_splits)
  note pos = fetch_limit_positive [OF l]
  then have "limit < length (undelivered E ds q start) \<Longrightarrow>
             take limit (undelivered E ds q start) \<noteq> []"
    by (cases "undelivered E ds q start") auto
  with ok l s n pos have "results = take limit (undelivered E ds q start)
        \<and> (c = None \<longleftrightarrow> length (undelivered E ds q start) \<le> limit)"
    by (cases "limit < length (undelivered E ds q start)")
       (auto simp: fetch_query_def fetch_page_cases)
  with l s show "\<exists>limit start.
            fetch_limit E h = Inr limit \<and> fetch_cursor E h = Inr start
            \<and> results = take limit (undelivered E ds q start)
            \<and> (c = None \<longleftrightarrow> length (undelivered E ds q start) \<le> limit)"
    by blast
next
  show "exn_cls (invalid_cursor h) = RESTException" by (simp add: invalid_cursor_def)
qed

lemmas fetch_defs =
  fetch_limit_def fetch_cursor_def GET_missing_def GET_get_def GET_text_def

lemma junk_cursor_get:
  "rest_method_wrapper E0 junk_cursor ''GET'' (get E0 junk_cursor) [] notes_ds
   = (Uncaught (Exn BadValueError ''invalid cursor''), notes_ds)"
  by (simp add: rest_method_wrapper_def junk_cursor_def get_def get_query_def filter_query_def
      permission_of_def owner_filter_def
      h_user_owner_property_def order_query_def query_filter_def model_query_def
      fetch_query_def fetch_defs fetch_page_def on_exception_def
      DEFAULT_MAX_QUERY_RESULTS_def key_val_def
      example_defs permission_defs Let_def)

theorem fetch_query_spec_witness:
  "fetch_limit E0 owner_handler = Inr 1000
   \<and> (\<exists>msg. fetch_query E0 (owner_handler \<lparr> request_GET := [(''limit'', ''0'')] \<rparr>) notes_ds
               (model_query note_cls) = Inl (Exn RESTException msg))
   \<and> (\<exists>msg. fetch_query E0 (owner_handler \<lparr> request_GET := [(''cursor'', ''j'')] \<rparr>) notes_ds
               (model_query note_cls) = Inl (Exn RESTException msg))
   \<and> (\<exists>msg. fetch_query E0 (owner_handler \<lparr> request_GET := [(''cursor'', ''c-alice'')] \<rparr>) notes_ds
               (model_query note_cls) = Inl (Exn RESTException msg))
   \<and> fetch_query E0 junk_cursor notes_ds (model_query note_cls)
       = Inl (Exn BadValueError ''invalid cursor'')
   \<and> rest_method_wrapper E0 junk_cursor ''GET'' (get E0 junk_cursor) [] notes_ds
       = (Uncaught (Exn BadValueError ''invalid cursor''), notes_ds)
   \<and> fetch_query E0 (owner_handler \<lparr> request_GET := [(''limit'', ''1'')] \<rparr>) notes_ds
        (model_query note_cls) = Inr ([note1], Some (Cursor [note1_key]))
   \<and> length (undelivered E0 notes_ds (model_query note_cls) None) = 2"
proof -
  let ?q = "model_query note_cls"
  let ?h0 = "owner_handler \<lparr> request_GET := [(''limit'', ''0'')] \<rparr>"
  let ?h1 = "owner_handler \<lparr> request_GET := [(''cursor'', ''j'')] \<rparr>"
  let ?h2 = "owner_handler \<lparr> request_GET := [(''cursor'', ''c-alice'')] \<rparr>"
  let ?h3 = "owner_handler \<lparr> request_GET := [(''limit'', ''1'')] \<rparr>"
  have a: "GET_missing owner_handler ''limit''"
    by (simp add: GET_missing_def GET_get_def owner_handler_def)
  have b: "\<not> GET_missing ?h0 ''limit''
           \<and> (\<forall>n. py_int E0 (GET_text ?h0 ''limit'') = Some n \<longrightarrow> n \<le> 0)"
    by (simp add: GET_missing_def GET_get_def GET_text_def E0_def example_int_def)
  have c: "fetch_limit E0 ?h1 = Inr 1000 \<and> \<not> GET_missing ?h1 ''cursor''
           \<and> cursor_from_urlsafe E0 (GET_text ?h1 ''cursor'') = Inl (Exn BadValueError ''Invalid cursor'')"
    by (simp add: fetch_defs E0_def DEFAULT_MAX_QUERY_RESULTS_def)
  have d: "fetch_limit E0 ?h2 = Inr 1000 \<and> fetch_cursor E0 ?h2 = Inr (Some (Cursor [alice_key]))
           \<and> fetch_page_raises E0 ?q 1000 (Some (Cursor [alice_key]))
               = Some (Exn BadRequestError ''cursor does not match query'')"
    by (simp add: fetch_defs E0_def DEFAULT_MAX_QUERY_RESULTS_def model_query_def note_cls_def
        alice_key_def)
  have j: "fetch_limit E0 junk_cursor = Inr 1000
           \<and> fetch_cursor E0 junk_cursor = Inr (Some (RawCursor ''junk''))
           \<and> fetch_page_raises E0 ?q 1000 (Some (RawCursor ''junk''))
               = Some (Exn BadValueError ''invalid cursor'')"
    by (simp add: fetch_defs E0_def DEFAULT_MAX_QUERY_RESULTS_def junk_cursor_def)
  have e: "fetch_limit E0 ?h3 = Inr 1 \<and> fetch_cursor E0 ?h3 = Inr None
           \<and> fetch_page_raises E0 ?q 1 None = None"
    by (simp add: fetch_defs owner_handler_def E0_def example_int_def)
  have u: "undelivered E0 notes_ds ?q None = [note1, note2]"
    by (simp add: undelivered_def run_query_def notes_ds_def model_query_def note_cls_def
        note1_key_def note2_key_def alice_key_def bob_key_def sort_by_def cursor_keys_def
        stored_def note1_def note2_def E0_def)
  from fetch_query_spec [of owner_handler E0 notes_ds ?q] a
  have 1: "fetch_limit E0 owner_handler = Inr 1000" by blast
  from fetch_query_spec [of ?h0 E0 notes_ds ?q] b
  have 2: "\<exists>msg. fetch_query E0 ?h0 notes_ds ?q = Inl (Exn RESTException msg)" by blast
  from fetch_query_spec [of ?h1 E0 notes_ds ?q] c
  have "fetch_query E0 ?h1 notes_ds ?q
        = Inl (if exn_cls (Exn BadValueError ''Invalid cursor'') = BadValueError
               then invalid_cursor ?h1 else Exn BadValueError ''Invalid cursor'')"
    by blast
  then have 3: "\<exists>msg. fetch_query E0 ?h1 notes_ds ?q = Inl (Exn RESTException msg)"
    by (simp add: invalid_cursor_def)
  from fetch_query_spec [of ?h2 E0 notes_ds ?q] d
  have "fetch_query E0 ?h2 notes_ds ?q
        = Inl (if exn_cls (Exn BadRequestError ''cursor does not match query'') = BadRequestError
               then invalid_cursor ?h2 else Exn BadRequestError ''cursor does not match query'')"
    by blast
  then have 4: "\<exists>msg. fetch_query E0 ?h2 notes_ds ?q = Inl (Exn RESTException msg)"
    by (simp add: invalid_cursor_def)
  from fetch_query_spec [of junk_cursor E0 notes_ds ?q] j
  have "fetch_query E0 junk_cursor notes_ds ?q
        = Inl (if exn_cls (Exn BadValueError ''invalid cursor'') = BadRequestError
               then invalid_cursor junk_cursor else Exn BadValueError ''invalid cursor'')"
    by blast
  then have 5: "fetch_query E0 junk_cursor notes_ds ?q = Inl (Exn BadValueError ''invalid cursor'')"
    by simp
  from fetch_query_spec [of ?h3 E0 notes_ds ?q] e
  have "fetch_query E0 ?h3 notes_ds ?q =
          Inr (take 1 (undelivered E0 notes_ds ?q None),
               if 1 < length (undelivered E0 notes_ds ?q None)
               then Some (Cursor (cursor_keys None
                                  @ List.map_filter ent_key (take 1 (undelivered E0 notes_ds ?q None))))
               else None)"
    by blast
  then have 6: "fetch_query E0 ?h3 notes_ds ?q = Inr ([note1], Some (Cursor [note1_key]))"
    by (simp add: u cursor_keys_def map_filter_simps note1_def)
  from 1 2 3 4 5 junk_cursor_get 6 u show ?thesis by simp
qed

section \<open>Lemmas: building an entity\<close>

lemma build_model_from_data_unfold:
  "build_model_from_data E h data0 cls model =
     (case translate_property_names_fn data0 cls Input of
        Inl e \<Rightarrow> Inl e
      | Inr data \<Rightarrow>
          (case input_properties E h data cls model of
             Inl e \<Rightarrow> Inl e
           | Inr kwds \<Rightarrow>
               (case model of
                  None \<Rightarrow> new_model E cls kwds
                | Some existing \<Rightarrow> populate E existing kwds)))"
proof (cases cls)
  case (ModelClass kind props meta)
  have conv: "(\<lambda>(name, prop). f name prop) = (\<lambda>p. f (fst p) (snd p))" for f :: "string \<Rightarrow> property \<Rightarrow> 'x"
    by (simp add: case_prod_unfold)
  show ?thesis
    unfolding ModelClass build_model_from_data.simps Let_def input_properties_def
      convert_item_def [abs_def] input_id_def owner_injection_def conv
    by (auto split: sum.splits bool.splits option.splits)
qed

lemma translate_dict_agree:
  "snd ` set table \<subseteq> S \<Longrightarrow> agree_on S d d' \<Longrightarrow>
   agree_on S (translate_dict Input table d) (translate_dict Input table d')"
proof (induction table arbitrary: d d')
  case Nil
  then show ?case by (simp add: translate_dict_def)
next
  case (Cons p ps)
  let ?f = "\<lambda>acc. case map_of acc (snd p) of
                     None \<Rightarrow> acc
                   | Some v \<Rightarrow> AList.update (fst p) v (AList.delete (snd p) acc)"
  from Cons.prems have src: "snd p \<in> S" by simp
  with Cons.prems have same: "map_of d (snd p) = map_of d' (snd p)"
    by (simp add: agree_on_def)
  have "agree_on S (?f d) (?f d')"
    using Cons.prems(2) same
    by (auto simp: agree_on_def update_conv' delete_conv' split: option.splits)
  moreover have "snd ` set ps \<subseteq> S" using Cons.prems by simp
  ultimately have "agree_on S (translate_dict Input ps (?f d)) (translate_dict Input ps (?f d'))"
    by (rule Cons.IH [rotated])
  then show ?case by (simp add: translate_dict_def Let_def)
qed

lemma convert_item_agree:
  "map_of d (fst p) = map_of d' (fst p) \<Longrightarrow>
   convert_item E h (VDict d) p = convert_item E h (VDict d') p"
  by (cases "map_of d' (fst p)") (simp_all add: convert_item_def in_keys_iff)

lemma input_id_agree:
  "(model = None \<and> uses_input_id cls \<longrightarrow> map_of d ''id'' = map_of d' ''id'') \<Longrightarrow>
   input_id cls model (VDict d) items = input_id cls model (VDict d') items"
  by (cases "map_of d' ''id''") (auto simp: input_id_def in_keys_iff)

lemma input_properties_agree:
  assumes "agree_on (fst ` set (cls_properties cls) \<union> id_key cls model) d d'"
  shows "input_properties E h (VDict d) cls model = input_properties E h (VDict d') cls model"
proof -
  have a: "map (convert_item E h (VDict d)) (cls_properties cls)
        = map (convert_item E h (VDict d')) (cls_properties cls)"
    using assms by (intro map_cong refl convert_item_agree) (auto simp: agree_on_def)
  have b: "input_id cls model (VDict d) items = input_id cls model (VDict d') items" for items
    using assms by (intro input_id_agree) (auto simp: agree_on_def id_key_def)
  show ?thesis unfolding input_properties_def a b ..
qed

text \<open>
  C10, amended. The result of \<^verbatim>\<open>_build_model_from_data\<close> on a dictionary, the
  entity or the exception, depends only on what the dictionary holds under the names of
  the properties of the class, under the names the input translation table renames, and
  under \<^verbatim>\<open>id\<close> when a new entity is built for a class with
  \<^verbatim>\<open>use_input_id\<close>. So adding, changing or removing any other key changes
  neither the entity nor whether the call raises.
\<close>

theorem unknown_keys_ignored:
  assumes "\<forall>x\<in>relevant_keys cls model. map_of d x = map_of d' x"
  shows "build_model_from_data E h (VDict d) cls model
         = build_model_from_data E h (VDict d') cls model"
proof (cases "cls_RESTMeta cls")
  case None
  then have "agree_on (fst ` set (cls_properties cls) \<union> id_key cls model) d d'"
    using assms by (auto simp: agree_on_def relevant_keys_def)
  then have "input_properties E h (VDict d) cls model = input_properties E h (VDict d') cls model"
    by (rule input_properties_agree)
  with None show ?thesis
    by (simp add: build_model_from_data_unfold translate_property_names_fn_def)
next
  case (Some m)
  let ?t = "translation_table m Input"
  have "agree_on (relevant_keys cls model) d d'"
    using assms by (simp add: agree_on_def)
  moreover have "snd ` set ?t \<subseteq> relevant_keys cls model"
    using Some by (auto simp: relevant_keys_def alias_keys_def)
  ultimately have "agree_on (relevant_keys cls model) (translate_dict Input ?t d) (translate_dict Input ?t d')"
    by (rule translate_dict_agree [rotated])
  then have "agree_on (fst ` set (cls_properties cls) \<union> id_key cls model)
               (translate_dict Input ?t d) (translate_dict Input ?t d')"
    by (auto simp: agree_on_def relevant_keys_def)
  then have "input_properties E h (VDict (translate_dict Input ?t d)) cls model
             = input_properties E h (VDict (translate_dict Input ?t d')) cls model"
    by (rule input_properties_agree)
  with Some show ?thesis
    by (simp add: build_model_from_data_unfold translate_property_names_fn_def translate_loop_dict)
qed

lemma set_attributes_map_of:
  "set_attributes E cls vals kwds = Inr vals' \<Longrightarrow>
   map_of vals' = map_of vals ++ map_of (rev kwds)"
proof (induction kwds arbitrary: vals)
  case Nil
  then show ?case by simp
next
  case (Cons a kwds)
  obtain name v where a: "a = (name, v)" by (cases a)
  from Cons.prems a have "set_attributes E cls (AList.update name v vals) kwds = Inr vals'"
    by (auto split: option.splits)
  from Cons.IH [OF this]
  have "map_of vals' = map_of (AList.update name v vals) ++ map_of (rev kwds)" .
  then show ?case
    by (auto simp: a fun_eq_iff map_add_def update_conv' split: option.splits)
qed

lemma set_attributes_names:
  "set_attributes E cls vals kwds = Inr vals' \<Longrightarrow>
   fst ` set kwds \<subseteq> fst ` set (cls_properties cls)"
proof (induction kwds arbitrary: vals)
  case Nil
  then show ?case by simp
next
  case (Cons a kwds)
  obtain name v where a: "a = (name, v)" by (cases a)
  from Cons.prems a obtain pr where p: "map_of (cls_properties cls) name = Some pr"
    and r: "set_attributes E cls (AList.update name v vals) kwds = Inr vals'"
    by (auto split: option.splits)
  from p have "name \<in> fst ` set (cls_properties cls)"
    by (metis in_keys_iff option.distinct(1) map_of_eq_None_iff)
  with Cons.IH [OF r] a show ?case by simp
qed

lemma map_of_rev_distinct: "distinct (map fst xs) \<Longrightarrow> map_of (rev xs) = map_of xs"
proof (induction xs)
  case Nil
  show ?case by simp
next
  case (Cons a xs)
  then have "map_of xs (fst a) = None" and "map_of (rev xs) = map_of xs"
    by (auto simp: map_of_eq_None_iff)
  then show ?case
    by (cases a) (auto simp: fun_eq_iff map_add_def split: option.splits)
qed

lemma map_of_filter_keys:
  "map_of (filter (\<lambda>(k, v). P k) xs) k = (if P k then map_of xs k else None)"
  by (induction xs) auto

lemma convert_item_name:
  "convert_item E h data p = Inr (Some (n, y)) \<Longrightarrow> n = fst p"
  by (auto simp: convert_item_def split: sum.splits bool.splits if_splits)

lemma items_keys:
  "sequence_sum (map (convert_item E h data) props) = Inr items \<Longrightarrow>
   fst ` set (List.map_filter id items) \<subseteq> fst ` set props"
proof (induction props arbitrary: items)
  case Nil
  then show ?case by (simp add: map_filter_simps)
next
  case (Cons p props)
  from Cons.prems obtain r rs where r: "convert_item E h data p = Inr r"
    and rs: "sequence_sum (map (convert_item E h data) props) = Inr rs"
    and items: "items = r # rs"
    by (auto split: sum.splits)
  from Cons.IH [OF rs] r items show ?case
    by (cases r) (auto simp: map_filter_simps dest: convert_item_name)
qed

lemma items_distinct:
  "sequence_sum (map (convert_item E h data) props) = Inr items \<Longrightarrow>
   distinct (map fst props) \<Longrightarrow> distinct (map fst (List.map_filter id items))"
proof (induction props arbitrary: items)
  case Nil
  then show ?case by (simp add: map_filter_simps)
next
  case (Cons p props)
  from Cons.prems(1) obtain r rs where r: "convert_item E h data p = Inr r"
    and rs: "sequence_sum (map (convert_item E h data) props) = Inr rs"
    and items: "items = r # rs"
    by (auto split: sum.splits)
  from Cons.prems(2) have d: "distinct (map fst props)" and nin: "fst p \<notin> fst ` set props"
    by auto
  from items_keys [OF rs] nin have "fst p \<notin> fst ` set (List.map_filter id rs)" by auto
  then have "\<forall>y. (fst p, y) \<notin> set (List.map_filter id rs)" by force
  with Cons.IH [OF rs d] r items show ?case
    by (cases r) (auto simp: map_filter_simps id_def dest!: convert_item_name)
qed

lemma items_map_of:
  "sequence_sum (map (convert_item E h data) props) = Inr items \<Longrightarrow>
   distinct (map fst props) \<Longrightarrow>
   map_of (List.map_filter id items) name =
     (case map_of props name of
        None \<Rightarrow> None
      | Some pr \<Rightarrow>
          (case convert_item E h data (name, pr) of
             Inr (Some (n, y)) \<Rightarrow> Some y
           | _ \<Rightarrow> None))"
proof (induction props arbitrary: items)
  case Nil
  then show ?case by (simp add: map_filter_simps)
next
  case (Cons p props)
  from Cons.prems(1) obtain r rs where r: "convert_item E h data p = Inr r"
    and rs: "sequence_sum (map (convert_item E h data) props) = Inr rs"
    and items: "items = r # rs"
    by (auto split: sum.splits)
  from Cons.prems(2) have d: "distinct (map fst props)" and nin: "fst p \<notin> fst ` set props"
    by auto
  from nin have none: "map_of props (fst p) = None"
    by (simp add: map_of_eq_None_iff)
  note IH = Cons.IH [OF rs d]
  obtain a b where p: "p = (a, b)" by (cases p)
  show ?case
  proof (cases "name = a")
    case True
    from items_keys [OF rs] nin p have "a \<notin> fst ` set (List.map_filter id rs)" by auto
    then have "map_of (List.map_filter id rs) a = None" by (simp add: map_of_eq_None_iff)
    with True r items p show ?thesis
      by (cases r) (auto simp: map_filter_simps id_def dest: convert_item_name)
  next
    case False
    with IH r items p show ?thesis
      by (cases r) (auto simp: map_filter_simps id_def dest: convert_item_name)
  qed
qed

lemma converted_eq:
  "converted E h data cls name =
     (case map_of (cls_properties cls) name of
        None \<Rightarrow> None
      | Some pr \<Rightarrow>
          (case convert_item E h data (name, pr) of
             Inr (Some (n, y)) \<Rightarrow> Some y
           | _ \<Rightarrow> None))"
  by (simp add: converted_def)

lemma input_properties_update:
  assumes ip: "input_properties E h data cls (Some ex) = Inr kwds"
    and d: "distinct (map fst (cls_properties cls))"
  shows "distinct (map fst kwds)"
    and "map_of kwds n =
           (if n \<in> get_included_properties cls Input then converted E h data cls n else None)"
proof -
  from ip obtain items where
    items: "sequence_sum (map (convert_item E h data) (cls_properties cls)) = Inr items"
    and kwds: "kwds = filter (\<lambda>(k, v). k \<in> get_included_properties cls Input)
                        (List.map_filter id items)"
    by (auto simp: input_properties_def input_id_def owner_injection_def
        split: sum.splits option.splits)
  from items_distinct [OF items d] show "distinct (map fst kwds)"
    by (simp add: kwds distinct_map_filter)
  show "map_of kwds n =
           (if n \<in> get_included_properties cls Input then converted E h data cls n else None)"
    by (simp add: kwds map_of_filter_keys items_map_of [OF items d] converted_eq)
qed

lemma input_properties_create_owner:
  assumes ip: "input_properties E h data cls None = Inr kwds"
    and d: "distinct (map fst (cls_properties cls))"
    and m: "cls_RESTMeta cls = Some meta" and p: "user_owner_property meta = Some p"
    and u: "h_user h = Some u"
  shows "distinct (map fst kwds)" and "map_of kwds p = Some (key_val u)"
proof -
  from ip obtain items props where
    items: "sequence_sum (map (convert_item E h data) (cls_properties cls)) = Inr items"
    and props: "input_id cls None data (List.map_filter id items) = Inr props"
    and kwds: "kwds = AList.update p (key_val u)
                        (filter (\<lambda>(k, v). k \<in> get_included_properties cls Input) props)"
    using m p u
    by (auto simp: input_properties_def owner_injection_def split: sum.splits)
  have "distinct (map fst props)"
    using props items_distinct [OF items d]
    by (auto simp: input_id_def distinct_update split: if_splits sum.splits bool.splits)
  then show "distinct (map fst kwds)"
    by (simp add: kwds distinct_update distinct_map_filter)
  show "map_of kwds p = Some (key_val u)"
    by (simp add: kwds update_conv')
qed

lemma input_properties_no_user:
  "h_user h = None \<Longrightarrow>
   input_properties E h data cls None = Inr kwds \<Longrightarrow>
   \<exists>items props.
     sequence_sum (map (convert_item E h data) (cls_properties cls)) = Inr items
     \<and> input_id cls None data (List.map_filter id items) = Inr props
     \<and> kwds = filter (\<lambda>(k, v). k \<in> get_included_properties cls Input) props"
  by (auto simp: input_properties_def owner_injection_def split: sum.splits option.splits)

lemma update_frame:
  assumes b: "build_model_from_data E h data0 cls (Some ex) = Inr m'"
    and t: "translate_property_names_fn data0 cls Input = Inr data"
    and d: "distinct (map fst (cls_properties cls))"
  shows "ent_key m' = ent_key ex \<and> ent_class m' = ent_class ex
         \<and> (\<forall>n. map_of (ent_values m') n =
               (if n \<in> get_included_properties cls Input
                then (case converted E h data cls n of
                        Some y \<Rightarrow> Some y
                      | None \<Rightarrow> map_of (ent_values ex) n)
                else map_of (ent_values ex) n))"
proof -
  from b t obtain kwds where ip: "input_properties E h data cls (Some ex) = Inr kwds"
    and pop: "populate E ex kwds = Inr m'"
    by (auto simp: build_model_from_data_unfold split: sum.splits)
  from pop obtain vals where sa: "set_attributes E (ent_class ex) (ent_values ex) kwds = Inr vals"
    and m': "m' = Entity (ent_class ex) (ent_key ex) vals"
    by (auto simp: populate_def split: sum.splits)
  have "map_of vals = map_of (ent_values ex) ++ map_of kwds"
    using set_attributes_map_of [OF sa] input_properties_update(1) [OF ip d]
    by (simp add: map_of_rev_distinct)
  then show ?thesis
    by (auto simp: m' map_add_def input_properties_update(2) [OF ip d] split: option.splits)
qed

lemma create_owner:
  assumes b: "build_model_from_data E h data0 cls None = Inr m'"
    and d: "distinct (map fst (cls_properties cls))"
    and m: "cls_RESTMeta cls = Some meta" and p: "user_owner_property meta = Some p"
    and pp: "map_of (cls_properties cls) p = Some pr"
    and u: "h_user h = Some u"
  shows "map_of (ent_values m') p = Some (key_val u)"
proof -
  from b obtain data kwds where ip: "input_properties E h data cls None = Inr kwds"
    and nm: "new_model E cls kwds = Inr m'"
    by (auto simp: build_model_from_data_unfold split: sum.splits)
  note dk = input_properties_create_owner(1) [OF ip d m p u]
  note ok = input_properties_create_owner(2) [OF ip d m p u]
  let ?rest = "if map_of (cls_properties cls) ''id'' \<noteq> None then kwds else AList.delete ''id'' kwds"
  from nm obtain vals where sa: "set_attributes E cls (unset_values cls) ?rest = Inr vals"
    and m': "ent_values m' = vals"
    by (auto simp: new_model_def Let_def split: sum.splits if_splits)
  have dr: "distinct (map fst ?rest)" using dk by (simp add: distinct_delete)
  have "p = ''id'' \<longrightarrow> map_of (cls_properties cls) ''id'' \<noteq> None" using pp by auto
  then have "map_of ?rest p = Some (key_val u)" using ok by (auto simp: delete_conv')
  with set_attributes_map_of [OF sa] dr show ?thesis
    by (simp add: m' map_of_rev_distinct map_add_def)
qed

lemma model_put_result:
  assumes "model_put E m ds = Inr (m', ds')"
  shows "ent_values m' = ent_values m" and "ent_class m' = ent_class m"
    and "\<exists>k. ent_key m' = Some k \<and> key_get ds' k = Some m' \<and> ds' = AList.update k m' ds
             \<and> (ent_key m \<noteq> None \<longrightarrow> ent_key m = Some k)"
  using assms
  by (auto simp: model_put_def Let_def key_get_def update_conv' stored_def
      split: option.splits)

lemma put_single_unfold:
  assumes "put E h collisions (Some ex) ds = (Inr r, ds')"
  shows "\<exists>data0 m1 m'. json_loads E (request_body h) = Some data0
           \<and> build_model_from_data E h data0 (h_model h) (Some ex) = Inr m1
           \<and> callback_and_put E (put_callback h) m1 (data_after_build data0 (h_model h)) ds
               = Inr (m', ds')
           \<and> r = VModel m'"
  using assms by (auto simp: put_def split: option.splits sum.splits)

lemma build_translates:
  "build_model_from_data E h data0 cls model = Inr m \<Longrightarrow>
   \<exists>data. translate_property_names_fn data0 cls Input = Inr data"
  by (auto simp: build_model_from_data_unfold split: sum.splits)

text \<open>
  C8, amended. When a PUT of an addressed entity succeeds, the entity built from the
  payload has the key and the class of the entity it updates, and each of its properties
  has the converted value of the payload when the property is accepted as input and the
  payload (after the translation of the names) names it, and the value it had before
  otherwise. That entity goes to the callback and to \<^verbatim>\<open>put()\<close>; without a
  callback it is what the datastore holds under the key afterwards, and what the request
  returns.
\<close>

theorem put_updates_in_place:
  assumes ok: "put E h collisions (Some ex) ds = (Inr r, ds')"
    and d: "distinct (map fst (cls_properties (h_model h)))"
  shows "\<exists>data0 data m1 m'.
           json_loads E (request_body h) = Some data0
           \<and> translate_property_names_fn data0 (h_model h) Input = Inr data
           \<and> build_model_from_data E h data0 (h_model h) (Some ex) = Inr m1
           \<and> ent_key m1 = ent_key ex \<and> ent_class m1 = ent_class ex
           \<and> (\<forall>n. map_of (ent_values m1) n =
                 (if n \<in> get_included_properties (h_model h) Input
                  then (case converted E h data (h_model h) n of
                          Some y \<Rightarrow> Some y
                        | None \<Rightarrow> map_of (ent_values ex) n)
                  else map_of (ent_values ex) n))
           \<and> callback_and_put E (put_callback h) m1 data ds = Inr (m', ds')
           \<and> r = VModel m'
           \<and> (put_callback h = None \<longrightarrow>
                ent_values m' = ent_values m1 \<and> ent_class m' = ent_class m1
                \<and> (\<exists>k. ent_key m' = Some k \<and> key_get ds' k = Some m'
                       \<and> (ent_key ex \<noteq> None \<longrightarrow> ent_key ex = Some k)))"
proof -
  from put_single_unfold [OF ok] obtain data0 m1 m' where
    j: "json_loads E (request_body h) = Some data0"
    and b: "build_model_from_data E h data0 (h_model h) (Some ex) = Inr m1"
    and c: "callback_and_put E (put_callback h) m1 (data_after_build data0 (h_model h)) ds
              = Inr (m', ds')"
    and r: "r = VModel m'"
    by blast
  from build_translates [OF b] obtain data where
    t: "translate_property_names_fn data0 (h_model h) Input = Inr data" ..
  then have dab: "data_after_build data0 (h_model h) = data"
    by (simp add: data_after_build_def)
  note f = update_frame [OF b t d]
  have "put_callback h = None \<longrightarrow>
          ent_values m' = ent_values m1 \<and> ent_class m' = ent_class m1
          \<and> (\<exists>k. ent_key m' = Some k \<and> key_get ds' k = Some m'
                 \<and> (ent_key ex \<noteq> None \<longrightarrow> ent_key ex = Some k))"
  proof
    assume "put_callback h = None"
    with c have mp: "model_put E m1 ds = Inr (m', ds')"
      by (simp add: callback_and_put_def)
    from model_put_result [OF mp] f show
      "ent_values m' = ent_values m1 \<and> ent_class m' = ent_class m1
       \<and> (\<exists>k. ent_key m' = Some k \<and> key_get ds' k = Some m'
              \<and> (ent_key ex \<noteq> None \<longrightarrow> ent_key ex = Some k))"
      by auto
  qed
  with j t b f c r dab show ?thesis by auto
qed

section \<open>Theorems at concrete requests: PUT and unknown keys\<close>

lemmas build_defs =
  translate_property_names_fn_def translation_table_def translate_for_def dict_update_def
  getattr_list_def get_included_properties_def included_for_def excluded_for_def
  DEFAULT_EXCLUDED_INPUT_PROPERTIES_def uses_input_id_def new_model_def populate_def
  unset_values_def map_filter_simps key_val_def


lemma acc_put_ok:
  "put E0 account_put [] (Some account1) accounts_ds
       = (Inr (VModel (Entity account_cls (Some account1_key)
                         [(''holder'', VStr ''eva''), (''balance'', VInt 10)])),
          [(account1_key, Entity account_cls (Some account1_key)
                            [(''holder'', VStr ''eva''), (''balance'', VInt 10)])])"
  by (simp add: put_def example_defs build_defs callback_and_put_def model_put_def
      data_after_build_def Let_def)

text \<open>
  C8, as the specification states it, fails: a property the payload names does not take
  the value of the payload when the model does not accept it as input. The PUT below
  names \<^verbatim>\<open>holder\<close> and \<^verbatim>\<open>balance\<close>; the balance, excluded from the input,
  keeps its value 10.
\<close>

theorem put_excluded_counterexample:
  "json_loads E0 (request_body account_put)
     = Some (VDict [(''holder'', VStr ''eva''), (''balance'', VInt 1000)])
   \<and> map_of (ent_values account1) ''balance'' = Some (VInt 10)
   \<and> put E0 account_put [] (Some account1) accounts_ds
       = (Inr (VModel (Entity account_cls (Some account1_key)
                         [(''holder'', VStr ''eva''), (''balance'', VInt 10)])),
          [(account1_key, Entity account_cls (Some account1_key)
                            [(''holder'', VStr ''eva''), (''balance'', VInt 10)])])"
  using acc_put_ok by (simp add: example_defs)

theorem put_updates_in_place_witness:
  "distinct (map fst (cls_properties (h_model account_put)))
   \<and> put E0 account_put [] (Some account1) accounts_ds
       = (Inr (VModel (Entity account_cls (Some account1_key)
                         [(''holder'', VStr ''eva''), (''balance'', VInt 10)])),
          [(account1_key, Entity account_cls (Some account1_key)
                            [(''holder'', VStr ''eva''), (''balance'', VInt 10)])])
   \<and> (\<exists>m1. build_model_from_data E0 account_put
               (VDict [(''holder'', VStr ''eva''), (''balance'', VInt 1000)]) account_cls
               (Some account1) = Inr m1
            \<and> ent_key m1 = Some account1_key
            \<and> map_of (ent_values m1) ''balance'' = Some (VInt 10))"
proof -
  have d: "distinct (map fst (cls_properties (h_model account_put)))"
    by (simp add: account_put_def account_cls_def)
  have j: "json_loads E0 (request_body account_put)
             = Some (VDict [(''holder'', VStr ''eva''), (''balance'', VInt 1000)])"
    by (simp add: example_defs)
  have t: "translate_property_names_fn
             (VDict [(''holder'', VStr ''eva''), (''balance'', VInt 1000)]) account_cls Input
           = Inr (VDict [(''holder'', VStr ''eva''), (''balance'', VInt 1000)])"
    by (simp add: example_defs build_defs)
  have hm: "h_model account_put = account_cls" by (simp add: account_put_def)
  have ex: "''balance'' \<notin> get_included_properties account_cls Input"
    by (simp add: example_defs build_defs)
  have old: "map_of (ent_values account1) ''balance'' = Some (VInt 10)"
    "ent_key account1 = Some account1_key"
    by (simp_all add: account1_def)
  from put_updates_in_place [OF acc_put_ok d] obtain data0 data m1 where
    "json_loads E0 (request_body account_put) = Some data0"
    "translate_property_names_fn data0 (h_model account_put) Input = Inr data"
    "build_model_from_data E0 account_put data0 (h_model account_put) (Some account1) = Inr m1"
    "ent_key m1 = ent_key account1"
    "\<forall>n. map_of (ent_values m1) n =
           (if n \<in> get_included_properties (h_model account_put) Input
            then (case converted E0 account_put data (h_model account_put) n of
                    Some y \<Rightarrow> Some y
                  | None \<Rightarrow> map_of (ent_values account1) n)
            else map_of (ent_values account1) n)"
    by blast
  with j hm ex old have
    "build_model_from_data E0 account_put
       (VDict [(''holder'', VStr ''eva''), (''balance'', VInt 1000)]) account_cls
       (Some account1) = Inr m1
     \<and> ent_key m1 = Some account1_key
     \<and> map_of (ent_values m1) ''balance'' = Some (VInt 10)"
    by simp
  with d acc_put_ok show ?thesis by blast
qed


text \<open>
  C10, as the specification states it, fails for the key \<^verbatim>\<open>id\<close>: it names no
  declared property of the model, and for a new entity of a model with
  \<^verbatim>\<open>use_input_id\<close> it is not ignored: it becomes the identifier of the entity,
  and the call raises without it.
\<close>

theorem id_key_counterexample:
  "''id'' \<notin> fst ` set (cls_properties city_cls)
   \<and> build_model_from_data E0 city_post (VDict [(''name'', VStr ''Paris''), (''id'', VStr ''paris'')])
         city_cls None
       = Inr (Entity city_cls (Some (Key ''City'' (StrId ''paris'')))
                [(''name'', VStr ''Paris''), (''age'', VNone)])
   \<and> build_model_from_data E0 city_post (VDict [(''name'', VStr ''Paris'')]) city_cls None
       = Inl (Exn RESTException ''id field is required'')"
  by (simp add: example_defs build_defs Let_def)

lemma note_build:
  "build_model_from_data E0 owner_handler (VDict [(''title'', VStr ''tea'')]) note_cls None
     = Inr (Entity note_cls None [(''title'', VStr ''tea''), (''owner'', VKey alice_key)])"
  by (simp add: example_defs build_defs Let_def)

theorem unknown_keys_ignored_witness:
  "relevant_keys note_cls None = {''title'', ''owner''}
   \<and> ''colour'' \<notin> relevant_keys note_cls None
   \<and> build_model_from_data E0 owner_handler
         (VDict [(''title'', VStr ''tea''), (''colour'', VStr ''red'')]) note_cls None
       = Inr (Entity note_cls None [(''title'', VStr ''tea''), (''owner'', VKey alice_key)])"
proof -
  have r: "relevant_keys note_cls None = {''title'', ''owner''}"
    by (auto simp: relevant_keys_def alias_keys_def id_key_def example_defs build_defs)
  have h: "\<forall>x\<in>relevant_keys note_cls None.
       map_of [(''title'', VStr ''tea''), (''colour'', VStr ''red'')] x
       = map_of [(''title'', VStr ''tea'')] x"
    by (simp add: r)
  from unknown_keys_ignored [OF h, of E0 owner_handler] note_build
  have "build_model_from_data E0 owner_handler
         (VDict [(''title'', VStr ''tea''), (''colour'', VStr ''red'')]) note_cls None
       = Inr (Entity note_cls None [(''title'', VStr ''tea''), (''owner'', VKey alice_key)])"
    by simp
  with h r show ?thesis by simp
qed

section \<open>Theorems: ownership\<close>

lemma converted_not_named:
  "py_in n data = Inr False \<Longrightarrow> converted E h data cls n = None"
  by (simp add: converted_def convert_item_def split: option.splits)

lemma update_keeps:
  assumes b: "build_model_from_data E h data0 cls (Some ex) = Inr m'"
    and t: "translate_property_names_fn data0 cls Input = Inr data"
    and d: "distinct (map fst (cls_properties cls))"
    and n: "py_in n data = Inr False \<or> n \<notin> get_included_properties cls Input"
  shows "map_of (ent_values m') n = map_of (ent_values ex) n"
  using update_frame [OF b t d] n by (auto simp: converted_not_named)

lemma nested_build:
  "value_to_property E h v (Property (StructuredProperty mc) rep) = Inr y \<Longrightarrow>
   \<exists>sub. y = VModel sub \<and> build_model_from_data E h v mc None = Inr sub"
  by (cases "build_model_from_data E h v mc None") auto

text \<open>
  C3, amended. When \<^verbatim>\<open>_build_model_from_data\<close> builds a new entity for a class
  that declares \<^verbatim>\<open>user_owner_property\<close> and a user is logged in, the owner
  property of the entity is the key of that user, whatever the payload gives for it.
  Nothing is assigned when an existing entity is updated (a property the payload does
  not name keeps its value) or when nobody is logged in. A structured property is always
  built as a new entity of its own class, so the same holds of it, under the
  \<^verbatim>\<open>RESTMeta\<close> of that class.
\<close>

theorem owner_injection_spec:
  "(\<forall>m' meta p pr u.
      build_model_from_data E h data0 cls None = Inr m'
      \<and> distinct (map fst (cls_properties cls))
      \<and> cls_RESTMeta cls = Some meta \<and> user_owner_property meta = Some p
      \<and> map_of (cls_properties cls) p = Some pr \<and> h_user h = Some u \<longrightarrow>
      map_of (ent_values m') p = Some (key_val u))
   \<and> owner_injection h cls (Some ex) kwds = kwds
   \<and> (\<forall>m' data p.
        build_model_from_data E h data0 cls (Some ex) = Inr m'
        \<and> translate_property_names_fn data0 cls Input = Inr data
        \<and> distinct (map fst (cls_properties cls)) \<and> py_in p data = Inr False \<longrightarrow>
        map_of (ent_values m') p = map_of (ent_values ex) p)
   \<and> (h_user h = None \<longrightarrow> owner_injection h cls model kwds = kwds)
   \<and> (\<forall>mc rep y meta p pr u.
        value_to_property E h v (Property (StructuredProperty mc) rep) = Inr y
        \<and> distinct (map fst (cls_properties mc))
        \<and> cls_RESTMeta mc = Some meta \<and> user_owner_property meta = Some p
        \<and> map_of (cls_properties mc) p = Some pr \<and> h_user h = Some u \<longrightarrow>
        (\<exists>sub. y = VModel sub \<and> build_model_from_data E h v mc None = Inr sub
               \<and> map_of (ent_values sub) p = Some (key_val u)))"
proof (intro conjI allI impI)
  fix m' meta p pr u
  assume "build_model_from_data E h data0 cls None = Inr m'
      \<and> distinct (map fst (cls_properties cls))
      \<and> cls_RESTMeta cls = Some meta \<and> user_owner_property meta = Some p
      \<and> map_of (cls_properties cls) p = Some pr \<and> h_user h = Some u"
  then show "map_of (ent_values m') p = Some (key_val u)"
    by (blast intro: create_owner)
next
  show "owner_injection h cls (Some ex) kwds = kwds"
    by (simp add: owner_injection_def split: option.splits)
next
  fix m' data p
  assume "build_model_from_data E h data0 cls (Some ex) = Inr m'
        \<and> translate_property_names_fn data0 cls Input = Inr data
        \<and> distinct (map fst (cls_properties cls)) \<and> py_in p data = Inr False"
  then show "map_of (ent_values m') p = map_of (ent_values ex) p"
    by (blast intro: update_keeps)
next
  assume "h_user h = None"
  then show "owner_injection h cls model kwds = kwds"
    by (simp add: owner_injection_def split: option.splits)
next
  fix mc rep y meta p pr u
  assume a: "value_to_property E h v (Property (StructuredProperty mc) rep) = Inr y
        \<and> distinct (map fst (cls_properties mc))
        \<and> cls_RESTMeta mc = Some meta \<and> user_owner_property meta = Some p
        \<and> map_of (cls_properties mc) p = Some pr \<and> h_user h = Some u"
  then obtain sub where s: "y = VModel sub" "build_model_from_data E h v mc None = Inr sub"
    by (blast dest: nested_build)
  with a have "map_of (ent_values sub) p = Some (key_val u)"
    by (blast intro: create_owner)
  with s show "\<exists>sub. y = VModel sub \<and> build_model_from_data E h v mc None = Inr sub
               \<and> map_of (ent_values sub) p = Some (key_val u)"
    by blast
qed

lemmas example_defs2 = example_defs alice_post_def root_put_def root_put_owner_def folder_cls_def

lemma alice_build:
  "build_model_from_data E0 alice_post
     (VDict [(''title'', VStr ''tea''), (''owner'', VStr ''K-bob'')]) note_cls None
   = Inr (Entity note_cls None [(''title'', VStr ''tea''), (''owner'', VKey alice_key)])"
  by (simp add: example_defs2 build_defs Let_def)

text \<open>
  C3, as the specification states it, fails: the owner is assigned also when the payload
  gives a value for it. The payload below names \<open>bob\<close> as the owner; the new entity is
  owned by \<open>alice\<close>, who sends the request.
\<close>

theorem owner_override_counterexample:
  "value_to_property E0 alice_post (VStr ''K-bob'') (Property (KeyProperty (Some ''User'')) False)
     = Inr (VKey bob_key)
   \<and> h_user alice_post = Some alice \<and> ent_key alice = Some alice_key
   \<and> build_model_from_data E0 alice_post
        (VDict [(''title'', VStr ''tea''), (''owner'', VStr ''K-bob'')]) note_cls None
      = Inr (Entity note_cls None [(''title'', VStr ''tea''), (''owner'', VKey alice_key)])"
  using alice_build by (simp add: example_defs2)

lemma nested_value:
  "value_to_property E0 alice_post (VDict [(''title'', VStr ''jam'')])
     (Property (StructuredProperty note_cls) False)
   = Inr (VModel (Entity note_cls None [(''title'', VStr ''jam''), (''owner'', VKey alice_key)]))"
  by (simp add: example_defs2 build_defs Let_def)

lemma folder_build:
  "build_model_from_data E0 alice_post
     (VDict [(''label'', VStr ''x''), (''first'', VDict [(''title'', VStr ''jam'')])]) folder_cls None
   = Inr (Entity folder_cls None
            [(''label'', VStr ''x''),
             (''first'', VModel (Entity note_cls None
                                   [(''title'', VStr ''jam''), (''owner'', VKey alice_key)]))])"
  by (simp add: example_defs2 build_defs Let_def)

theorem owner_injection_spec_witness:
  "build_model_from_data E0 alice_post
     (VDict [(''title'', VStr ''tea''), (''owner'', VStr ''K-bob'')]) note_cls None
   = Inr (Entity note_cls None [(''title'', VStr ''tea''), (''owner'', VKey alice_key)])
   \<and> map_of (ent_values (Entity note_cls None
                 [(''title'', VStr ''tea''), (''owner'', VKey alice_key)])) ''owner''
       = Some (key_val alice)
   \<and> (\<exists>sub. value_to_property E0 alice_post (VDict [(''title'', VStr ''jam'')])
               (Property (StructuredProperty note_cls) False) = Inr (VModel sub)
            \<and> map_of (ent_values sub) ''owner'' = Some (key_val alice))
   \<and> h_user city_post = None"
proof -
  have d: "distinct (map fst (cls_properties note_cls))"
    and m: "cls_RESTMeta note_cls = Some (no_meta \<lparr> user_owner_property := Some ''owner'' \<rparr>)"
    and p: "user_owner_property (no_meta \<lparr> user_owner_property := Some ''owner'' \<rparr>) = Some ''owner''"
    and pp: "map_of (cls_properties note_cls) ''owner'' = Some (Property (KeyProperty (Some ''User'')) False)"
    and u: "h_user alice_post = Some alice"
    by (simp_all add: note_cls_def alice_post_def owner_handler_def)
  note spec = owner_injection_spec [of E0 alice_post
      "VDict [(''title'', VStr ''tea''), (''owner'', VStr ''K-bob'')]" note_cls note1 "[]" None
      "VDict [(''title'', VStr ''jam'')]"]
  from spec alice_build d m p pp u
  have 1: "map_of (ent_values (Entity note_cls None
                 [(''title'', VStr ''tea''), (''owner'', VKey alice_key)])) ''owner''
       = Some (key_val alice)"
    by blast
  from spec nested_value d m p pp u
  have 2: "\<exists>sub. VModel (Entity note_cls None [(''title'', VStr ''jam''), (''owner'', VKey alice_key)])
                  = VModel sub
               \<and> map_of (ent_values sub) ''owner'' = Some (key_val alice)"
    by blast
  have 3: "h_user city_post = None" by (simp add: city_post_def)
  from alice_build 1 2 3 nested_value show ?thesis by simp
qed

lemma post_unfold:
  assumes "post E h None ds = (Inr r, ds')"
  shows "\<exists>data0 m1 m'. json_loads E (request_body h) = Some data0
           \<and> build_model_from_data E h data0 (h_model h) None = Inr m1
           \<and> callback_and_put E (post_callback h) m1 (data_after_build data0 (h_model h)) ds
               = Inr (m', ds')
           \<and> r = VModel m'"
  using assms by (auto simp: post_def split: option.splits sum.splits)

lemma update_one_unfold:
  assumes "update_one E h permission model_to_update ds = Inr (m', ds')"
  shows "\<exists>model_id model m1.
           py_getitem model_to_update ''id'' = Inr model_id
           \<and> model_id_to_model E h ds model_id = Inr model
           \<and> build_model_from_data E h model_to_update (h_model h) model = Inr m1
           \<and> callback_and_put E (put_callback h) m1
                (data_after_build model_to_update (h_model h)) ds = Inr (m', ds')"
  using assms
  by (auto simp: update_one_def split: sum.splits bool.splits if_splits)

text \<open>
  C2, amended. For a model that declares \<^verbatim>\<open>user_owner_property\<close> (naming one of
  its properties), an entity created by a POST of a logged-in user, with no callback set,
  is stored with the key of that user as its owner. An update, by a single PUT or as an
  element of a batch PUT, with no callback set, leaves the owner as it was when the
  payload (after the translation of the names) does not name the owner property or the
  model does not accept that property as input; whoever sends it, the user is never
  assigned on an update.
\<close>

theorem ownership_spec:
  "(\<forall>r ds' meta p pr u.
      post E h None ds = (Inr r, ds') \<and> post_callback h = None
      \<and> distinct (map fst (cls_properties (h_model h)))
      \<and> cls_RESTMeta (h_model h) = Some meta \<and> user_owner_property meta = Some p
      \<and> map_of (cls_properties (h_model h)) p = Some pr \<and> h_user h = Some u \<longrightarrow>
      (\<exists>m k. r = VModel m \<and> map_of (ent_values m) p = Some (key_val u)
             \<and> ent_key m = Some k \<and> key_get ds' k = Some m))
   \<and> (\<forall>r ds' data0 data p.
        put E h collisions (Some ex) ds = (Inr r, ds') \<and> put_callback h = None
        \<and> distinct (map fst (cls_properties (h_model h)))
        \<and> json_loads E (request_body h) = Some data0
        \<and> translate_property_names_fn data0 (h_model h) Input = Inr data
        \<and> (py_in p data = Inr False \<or> p \<notin> get_included_properties (h_model h) Input) \<longrightarrow>
        (\<exists>m. r = VModel m \<and> map_of (ent_values m) p = map_of (ent_values ex) p))
   \<and> (\<forall>m ds' model_id data p.
        update_one E h permission model_to_update ds = Inr (m, ds') \<and> put_callback h = None
        \<and> distinct (map fst (cls_properties (h_model h)))
        \<and> py_getitem model_to_update ''id'' = Inr model_id
        \<and> model_id_to_model E h ds model_id = Inr (Some ex)
        \<and> translate_property_names_fn model_to_update (h_model h) Input = Inr data
        \<and> (py_in p data = Inr False \<or> p \<notin> get_included_properties (h_model h) Input) \<longrightarrow>
        map_of (ent_values m) p = map_of (ent_values ex) p)"
proof (intro conjI allI impI)
  fix r ds' meta p pr u
  assume a: "post E h None ds = (Inr r, ds') \<and> post_callback h = None
      \<and> distinct (map fst (cls_properties (h_model h)))
      \<and> cls_RESTMeta (h_model h) = Some meta \<and> user_owner_property meta = Some p
      \<and> map_of (cls_properties (h_model h)) p = Some pr \<and> h_user h = Some u"
  then obtain data0 m1 m' where
    b: "build_model_from_data E h data0 (h_model h) None = Inr m1"
    and c: "callback_and_put E (post_callback h) m1 (data_after_build data0 (h_model h)) ds
              = Inr (m', ds')"
    and r: "r = VModel m'"
    by (blast dest: post_unfold)
  from a b have o: "map_of (ent_values m1) p = Some (key_val u)"
    by (blast intro: create_owner)
  from a c have mp: "model_put E m1 ds = Inr (m', ds')"
    by (simp add: callback_and_put_def)
  from model_put_result [OF mp] o r
  show "\<exists>m k. r = VModel m \<and> map_of (ent_values m) p = Some (key_val u)
             \<and> ent_key m = Some k \<and> key_get ds' k = Some m"
    by auto
next
  fix r ds' data0 data p
  assume a: "put E h collisions (Some ex) ds = (Inr r, ds') \<and> put_callback h = None
        \<and> distinct (map fst (cls_properties (h_model h)))
        \<and> json_loads E (request_body h) = Some data0
        \<and> translate_property_names_fn data0 (h_model h) Input = Inr data
        \<and> (py_in p data = Inr False \<or> p \<notin> get_included_properties (h_model h) Input)"
  then obtain m1 m' where
    b: "build_model_from_data E h data0 (h_model h) (Some ex) = Inr m1"
    and c: "callback_and_put E (put_callback h) m1 (data_after_build data0 (h_model h)) ds
              = Inr (m', ds')"
    and r: "r = VModel m'"
    by (auto dest!: put_single_unfold)
  from a b have o: "map_of (ent_values m1) p = map_of (ent_values ex) p"
    by (blast intro: update_keeps)
  from a c have mp: "model_put E m1 ds = Inr (m', ds')"
    by (simp add: callback_and_put_def)
  from model_put_result(1) [OF mp] o r
  show "\<exists>m. r = VModel m \<and> map_of (ent_values m) p = map_of (ent_values ex) p"
    by simp
next
  fix m ds' model_id data p
  assume a: "update_one E h permission model_to_update ds = Inr (m, ds') \<and> put_callback h = None
        \<and> distinct (map fst (cls_properties (h_model h)))
        \<and> py_getitem model_to_update ''id'' = Inr model_id
        \<and> model_id_to_model E h ds model_id = Inr (Some ex)
        \<and> translate_property_names_fn model_to_update (h_model h) Input = Inr data
        \<and> (py_in p data = Inr False \<or> p \<notin> get_included_properties (h_model h) Input)"
  then obtain m1 where
    b: "build_model_from_data E h model_to_update (h_model h) (Some ex) = Inr m1"
    and c: "callback_and_put E (put_callback h) m1
              (data_after_build model_to_update (h_model h)) ds = Inr (m, ds')"
    by (auto dest!: update_one_unfold)
  from a b have o: "map_of (ent_values m1) p = map_of (ent_values ex) p"
    by (blast intro: update_keeps)
  from a c have mp: "model_put E m1 ds = Inr (m, ds')"
    by (simp add: callback_and_put_def)
  from model_put_result(1) [OF mp] o
  show "map_of (ent_values m) p = map_of (ent_values ex) p"
    by simp
qed

lemmas put_defs = put_def post_def callback_and_put_def model_put_def data_after_build_def
  allocate_id_def Let_def

lemma root_put_owner_ok:
  "put E0 root_put_owner [] (Some note1) notes_ds
   = (Inr (VModel (Entity note_cls (Some note1_key)
                     [(''title'', VStr ''milk''), (''owner'', VKey bob_key)])),
      [(note1_key, Entity note_cls (Some note1_key)
                     [(''title'', VStr ''milk''), (''owner'', VKey bob_key)]),
       (note2_key, note2), (alice_key, alice), (bob_key, bob)])"
  by (simp add: example_defs2 build_defs put_defs)

text \<open>
  C2, as the specification states it, fails: a PUT whose payload names the owner property
  changes it. The admin's PUT below moves the note of \<open>alice\<close> to \<open>bob\<close>.
\<close>

theorem put_changes_owner_counterexample:
  "map_of (ent_values note1) ''owner'' = Some (VKey alice_key)
   \<and> key_get notes_ds note1_key = Some note1
   \<and> VKey bob_key \<noteq> VKey alice_key
   \<and> put E0 root_put_owner [] (Some note1) notes_ds
      = (Inr (VModel (Entity note_cls (Some note1_key)
                        [(''title'', VStr ''milk''), (''owner'', VKey bob_key)])),
         [(note1_key, Entity note_cls (Some note1_key)
                        [(''title'', VStr ''milk''), (''owner'', VKey bob_key)]),
          (note2_key, note2), (alice_key, alice), (bob_key, bob)])"
  using root_put_owner_ok by (simp add: example_defs2 key_get_def stored_def)

lemma alice_post_ok:
  "post E0 alice_post None notes_ds
   = (Inr (VModel (Entity note_cls (Some (Key ''Note'' (IntId 3)))
                     [(''title'', VStr ''tea''), (''owner'', VKey alice_key)])),
      notes_ds @ [(Key ''Note'' (IntId 3),
                   Entity note_cls (Some (Key ''Note'' (IntId 3)))
                     [(''title'', VStr ''tea''), (''owner'', VKey alice_key)])])"
  by (simp add: example_defs2 build_defs put_defs)

lemma root_put_ok:
  "put E0 root_put [] (Some note2) notes_ds
   = (Inr (VModel (Entity note_cls (Some note2_key)
                     [(''title'', VStr ''tea''), (''owner'', VKey bob_key)])),
      [(note1_key, note1),
       (note2_key, Entity note_cls (Some note2_key)
                     [(''title'', VStr ''tea''), (''owner'', VKey bob_key)]),
       (alice_key, alice), (bob_key, bob)])"
  by (simp add: example_defs2 build_defs put_defs)

lemma root_update_one_ok:
  "update_one E0 root_put PERMISSION_ADMIN
     (VDict [(''id'', VStr ''K-note1''), (''title'', VStr ''tea'')]) notes_ds
   = Inr (Entity note_cls (Some note1_key)
            [(''title'', VStr ''tea''), (''owner'', VKey alice_key)],
          [(note1_key, Entity note_cls (Some note1_key)
                         [(''title'', VStr ''tea''), (''owner'', VKey alice_key)]),
           (note2_key, note2), (alice_key, alice), (bob_key, bob)])"
  by (simp add: example_defs2 build_defs put_defs update_one_def model_id_to_model_def
      key_get_def stored_def permission_defs)

theorem ownership_spec_witness:
  "post E0 alice_post None notes_ds
   = (Inr (VModel (Entity note_cls (Some (Key ''Note'' (IntId 3)))
                     [(''title'', VStr ''tea''), (''owner'', VKey alice_key)])),
      notes_ds @ [(Key ''Note'' (IntId 3),
                   Entity note_cls (Some (Key ''Note'' (IntId 3)))
                     [(''title'', VStr ''tea''), (''owner'', VKey alice_key)])])
   \<and> (\<exists>m k. VModel (Entity note_cls (Some (Key ''Note'' (IntId 3)))
                      [(''title'', VStr ''tea''), (''owner'', VKey alice_key)]) = VModel m
            \<and> map_of (ent_values m) ''owner'' = Some (key_val alice) \<and> ent_key m = Some k)
   \<and> (\<exists>m. fst (put E0 root_put [] (Some note2) notes_ds) = Inr (VModel m)
          \<and> map_of (ent_values m) ''owner'' = map_of (ent_values note2) ''owner'')
   \<and> (\<exists>m ds'. update_one E0 root_put PERMISSION_ADMIN
                 (VDict [(''id'', VStr ''K-note1''), (''title'', VStr ''tea'')]) notes_ds
               = Inr (m, ds')
             \<and> map_of (ent_values m) ''owner'' = map_of (ent_values note1) ''owner'')"
proof -
  let ?elem = "VDict [(''id'', VStr ''K-note1''), (''title'', VStr ''tea'')]"
  have d: "distinct (map fst (cls_properties (h_model alice_post)))"
    and m: "cls_RESTMeta (h_model alice_post)
            = Some (no_meta \<lparr> user_owner_property := Some ''owner'' \<rparr>)"
    and p: "user_owner_property (no_meta \<lparr> user_owner_property := Some ''owner'' \<rparr>) = Some ''owner''"
    and pp: "map_of (cls_properties (h_model alice_post)) ''owner''
             = Some (Property (KeyProperty (Some ''User'')) False)"
    and u: "h_user alice_post = Some alice"
    and c: "post_callback alice_post = None"
    by (simp_all add: note_cls_def alice_post_def owner_handler_def)
  from ownership_spec [of E0 alice_post notes_ds "[]" note2 PERMISSION_ADMIN ?elem]
    alice_post_ok d m p pp u c
  have 1: "\<exists>m k. VModel (Entity note_cls (Some (Key ''Note'' (IntId 3)))
                      [(''title'', VStr ''tea''), (''owner'', VKey alice_key)]) = VModel m
            \<and> map_of (ent_values m) ''owner'' = Some (key_val alice) \<and> ent_key m = Some k"
    by blast
  have d2: "distinct (map fst (cls_properties (h_model root_put)))"
    and c2: "put_callback root_put = None"
    and j2: "json_loads E0 (request_body root_put) = Some (VDict [(''title'', VStr ''tea'')])"
    and t2: "translate_property_names_fn (VDict [(''title'', VStr ''tea'')]) (h_model root_put) Input
             = Inr (VDict [(''title'', VStr ''tea'')])"
    and n2: "py_in ''owner'' (VDict [(''title'', VStr ''tea'')]) = Inr False"
    by (simp_all add: example_defs2 build_defs)
  from ownership_spec [of E0 root_put notes_ds "[]" note2 PERMISSION_ADMIN ?elem]
    root_put_ok d2 c2 j2 t2 n2
  have "\<exists>m. VModel (Entity note_cls (Some note2_key)
                     [(''title'', VStr ''tea''), (''owner'', VKey bob_key)]) = VModel m
          \<and> map_of (ent_values m) ''owner'' = map_of (ent_values note2) ''owner''"
    by blast
  with root_put_ok
  have 2: "\<exists>m. fst (put E0 root_put [] (Some note2) notes_ds) = Inr (VModel m)
          \<and> map_of (ent_values m) ''owner'' = map_of (ent_values note2) ''owner''"
    by simp
  have g3: "py_getitem ?elem ''id'' = Inr (VStr ''K-note1'')"
    and r3: "model_id_to_model E0 root_put notes_ds (VStr ''K-note1'') = Inr (Some note1)"
    and t3: "translate_property_names_fn ?elem (h_model root_put) Input = Inr ?elem"
    and n3: "py_in ''owner'' ?elem = Inr False"
    by (simp_all add: example_defs2 build_defs model_id_to_model_def key_get_def stored_def)
  from ownership_spec [of E0 root_put notes_ds "[]" note1 PERMISSION_ADMIN ?elem]
    root_update_one_ok d2 c2 g3 r3 t3 n3
  have "map_of (ent_values (Entity note_cls (Some note1_key)
            [(''title'', VStr ''tea''), (''owner'', VKey alice_key)])) ''owner''
        = map_of (ent_values note1) ''owner''"
    by blast
  with root_update_one_ok
  have 3: "\<exists>m ds'. update_one E0 root_put PERMISSION_ADMIN ?elem notes_ds = Inr (m, ds')
             \<and> map_of (ent_values m) ''owner'' = map_of (ent_values note1) ''owner''"
    by simp
  from alice_post_ok 1 2 3 show ?thesis by blast
qed

section \<open>Theorems: the batch PUT\<close>

lemma update_loop_append:
  "update_loop E h permission (pre @ rest) acc ds =
     (case update_loop E h permission pre acc ds of
        Inl e \<Rightarrow> Inl e
      | Inr (acc', ds1) \<Rightarrow> update_loop E h permission rest acc' ds1)"
  by (induction pre arbitrary: acc ds) (auto split: sum.splits)

lemma run_transaction_failure:
  "run_transaction n collisions body ds = (Inl e, ds') \<Longrightarrow> ds' = ds"
  by (induction n collisions body ds rule: run_transaction.induct)
     (auto split: sum.splits list.splits bool.splits)

lemma multi_update_models_failure:
  "multi_update_models E h collisions models ds = (Inl e, ds') \<Longrightarrow> ds' = ds"
  unfolding multi_update_models_def transactional_def by (rule run_transaction_failure)

lemma update_one_stores:
  assumes "update_one E h permission x ds = Inr (m, ds')"
  shows "\<exists>k. ent_key m = Some k \<and> ds' = AList.update k m ds \<and> key_get ds' k = Some m"
proof -
  from update_one_unfold [OF assms] obtain m1 where
    "callback_and_put E (put_callback h) m1 (data_after_build x (h_model h)) ds = Inr (m, ds')"
    by blast
  then obtain m2 where "model_put E m2 ds = Inr (m, ds')"
    by (auto simp: callback_and_put_def split: sum.splits)
  from model_put_result(3) [OF this] show ?thesis by blast
qed

lemma update_loop_steps:
  "update_loop E h permission models acc ds = Inr (updated, ds1) \<Longrightarrow>
   \<exists>ms dss. length ms = length models \<and> length dss = Suc (length models)
     \<and> dss ! 0 = ds \<and> dss ! length models = ds1
     \<and> (\<forall>i<length models.
           update_one E h permission (models ! i) (dss ! i) = Inr (ms ! i, dss ! Suc i))
     \<and> updated = fold (\<lambda>m a. same_instance m a @ [m]) ms acc"
proof (induction models arbitrary: acc ds)
  case Nil
  then have "length ([] :: entity list) = length ([] :: val list) \<and> length [ds] = Suc (length ([] :: val list))
     \<and> [ds] ! 0 = ds \<and> [ds] ! length ([] :: val list) = ds1
     \<and> (\<forall>i<length ([] :: val list).
           update_one E h permission ([] ! i) ([ds] ! i) = Inr ([] ! i, [ds] ! Suc i))
     \<and> updated = fold (\<lambda>m a. same_instance m a @ [m]) [] acc"
    by simp
  then show ?case by blast
next
  case (Cons x models)
  from Cons.prems obtain m ds' where one: "update_one E h permission x ds = Inr (m, ds')"
    and rest: "update_loop E h permission models (same_instance m acc @ [m]) ds' = Inr (updated, ds1)"
    by (auto split: sum.splits)
  from Cons.IH [OF rest] obtain ms dss where
    l: "length ms = length models" "length dss = Suc (length models)"
    and e: "dss ! 0 = ds'" "dss ! length models = ds1"
    and s: "\<forall>i<length models.
           update_one E h permission (models ! i) (dss ! i) = Inr (ms ! i, dss ! Suc i)"
    and u: "updated = fold (\<lambda>m a. same_instance m a @ [m]) ms (same_instance m acc @ [m])"
    by blast
  have "\<forall>i<length (x # models).
           update_one E h permission ((x # models) ! i) ((ds # dss) ! i)
           = Inr ((m # ms) ! i, (ds # dss) ! Suc i)"
  proof (intro allI impI)
    fix i assume "i < length (x # models)"
    then show "update_one E h permission ((x # models) ! i) ((ds # dss) ! i)
           = Inr ((m # ms) ! i, (ds # dss) ! Suc i)"
      using one e(1) s by (cases i) auto
  qed
  with l e u have "length (m # ms) = length (x # models)
     \<and> length (ds # dss) = Suc (length (x # models))
     \<and> (ds # dss) ! 0 = ds \<and> (ds # dss) ! length (x # models) = ds1
     \<and> (\<forall>i<length (x # models).
           update_one E h permission ((x # models) ! i) ((ds # dss) ! i)
           = Inr ((m # ms) ! i, (ds # dss) ! Suc i))
     \<and> updated = fold (\<lambda>m a. same_instance m a @ [m]) (m # ms) acc"
    by simp
  then show ?case by blast
qed

lemma update_loop_fails:
  "update_loop E h permission models acc ds = Inl e \<Longrightarrow>
   \<exists>pre x rest updated ds1. models = pre @ x # rest
     \<and> update_loop E h permission pre acc ds = Inr (updated, ds1)
     \<and> update_one E h permission x ds1 = Inl e"
proof (induction models arbitrary: acc ds)
  case Nil
  then show ?case by simp
next
  case (Cons x models)
  show ?case
  proof (cases "update_one E h permission x ds")
    case (Inl e')
    with Cons.prems have "e' = e" by simp
    with Inl have "x # models = [] @ x # models
     \<and> update_loop E h permission [] acc ds = Inr (acc, ds)
     \<and> update_one E h permission x ds = Inl e" by simp
    then show ?thesis by blast
  next
    case (Inr r)
    obtain m ds' where r: "r = (m, ds')" by (cases r)
    with Inr Cons.prems have
      "update_loop E h permission models (same_instance m acc @ [m]) ds' = Inl e" by simp
    from Cons.IH [OF this] obtain pre y rest updated ds1 where
      "models = pre @ y # rest"
      "update_loop E h permission pre (same_instance m acc @ [m]) ds' = Inr (updated, ds1)"
      "update_one E h permission y ds1 = Inl e"
      by blast
    with Inr r have "x # models = (x # pre) @ y # rest
     \<and> update_loop E h permission (x # pre) acc ds = Inr (updated, ds1)
     \<and> update_one E h permission y ds1 = Inl e" by simp
    then show ?thesis by blast
  qed
qed

lemma length_same_instance: "length (same_instance m xs) = length xs"
  by (simp add: same_instance_def)

lemma fold_same_instance:
  "length (fold (\<lambda>m a. same_instance m a @ [m]) ms []) = length ms
   \<and> (\<forall>i<length ms. \<exists>j<length ms.
          i \<le> j \<and> ent_key (ms ! j) = ent_key (ms ! i)
          \<and> fold (\<lambda>m a. same_instance m a @ [m]) ms [] ! i = ms ! j
          \<and> (\<forall>j'. j < j' \<and> j' < length ms \<longrightarrow> ent_key (ms ! j') \<noteq> ent_key (ms ! i)))"
proof (induction ms rule: rev_induct)
  case Nil
  show ?case by simp
next
  case (snoc m ms)
  let ?u = "fold (\<lambda>m a. same_instance m a @ [m]) ms []"
  let ?u' = "fold (\<lambda>m a. same_instance m a @ [m]) (ms @ [m]) []"
  from snoc have len: "length ?u = length ms" by simp
  have u': "?u' = same_instance m ?u @ [m]" by simp
  have len': "length ?u' = length (ms @ [m])" by (simp add: len length_same_instance)
  have "\<exists>j<length (ms @ [m]).
          i \<le> j \<and> ent_key ((ms @ [m]) ! j) = ent_key ((ms @ [m]) ! i)
          \<and> ?u' ! i = (ms @ [m]) ! j
          \<and> (\<forall>j'. j < j' \<and> j' < length (ms @ [m]) \<longrightarrow>
                 ent_key ((ms @ [m]) ! j') \<noteq> ent_key ((ms @ [m]) ! i))"
    if i: "i < length (ms @ [m])" for i
  proof (cases "i < length ms")
    case False
    with i have ii: "i = length ms" by simp
    have "?u' ! i = m" unfolding u' ii by (simp add: nth_append length_same_instance len)
    then have "i < length (ms @ [m]) \<and> i \<le> i
          \<and> ent_key ((ms @ [m]) ! i) = ent_key ((ms @ [m]) ! i)
          \<and> ?u' ! i = (ms @ [m]) ! i
          \<and> (\<forall>j'. i < j' \<and> j' < length (ms @ [m]) \<longrightarrow>
                 ent_key ((ms @ [m]) ! j') \<noteq> ent_key ((ms @ [m]) ! i))"
      using ii by auto
    then show ?thesis by blast
  next
    case True
    with snoc obtain j where j: "j < length ms" "i \<le> j" "ent_key (ms ! j) = ent_key (ms ! i)"
      "?u ! i = ms ! j"
      "\<forall>j'. j < j' \<and> j' < length ms \<longrightarrow> ent_key (ms ! j') \<noteq> ent_key (ms ! i)"
      by blast
    have ui: "?u' ! i = (if ent_key (ms ! i) = ent_key m then m else ms ! j)"
      unfolding u' using True len j(3,4)
      by (simp add: nth_append length_same_instance same_instance_def)
    show ?thesis
    proof (cases "ent_key (ms ! i) = ent_key m")
      case same: True
      with ui True have "length ms < length (ms @ [m]) \<and> i \<le> length ms
          \<and> ent_key ((ms @ [m]) ! length ms) = ent_key ((ms @ [m]) ! i)
          \<and> ?u' ! i = (ms @ [m]) ! length ms
          \<and> (\<forall>j'. length ms < j' \<and> j' < length (ms @ [m]) \<longrightarrow>
                 ent_key ((ms @ [m]) ! j') \<noteq> ent_key ((ms @ [m]) ! i))"
        by (auto simp: nth_append)
      then show ?thesis by blast
    next
      case diff: False
      have "\<forall>j'. j < j' \<and> j' < length (ms @ [m]) \<longrightarrow>
                 ent_key ((ms @ [m]) ! j') \<noteq> ent_key ((ms @ [m]) ! i)"
      proof (intro allI impI)
        fix j' assume a: "j < j' \<and> j' < length (ms @ [m])"
        show "ent_key ((ms @ [m]) ! j') \<noteq> ent_key ((ms @ [m]) ! i)"
        proof (cases "j' < length ms")
          case True: True
          with a j(5) \<open>i < length ms\<close> show ?thesis by (simp add: nth_append)
        next
          case False
          with a have "j' = length ms" by simp
          with diff \<open>i < length ms\<close> show ?thesis by (auto simp: nth_append)
        qed
      qed
      with ui diff True j have "j < length (ms @ [m]) \<and> i \<le> j
          \<and> ent_key ((ms @ [m]) ! j) = ent_key ((ms @ [m]) ! i)
          \<and> ?u' ! i = (ms @ [m]) ! j
          \<and> (\<forall>j'. j < j' \<and> j' < length (ms @ [m]) \<longrightarrow>
                 ent_key ((ms @ [m]) ! j') \<noteq> ent_key ((ms @ [m]) ! i))"
        by (simp add: nth_append)
      then show ?thesis by blast
    qed
  qed
  with len' show ?case by blast
qed

lemma update_loop_total:
  "length ms = length models \<Longrightarrow> length dss = Suc (length models) \<Longrightarrow>
   (\<forall>i<length models.
      update_one E h permission (models ! i) (dss ! i) = Inr (ms ! i, dss ! Suc i)) \<Longrightarrow>
   \<exists>updated. update_loop E h permission models acc (dss ! 0)
               = Inr (updated, dss ! length models)"
proof (induction models arbitrary: ms dss acc)
  case Nil
  then show ?case by simp
next
  case (Cons x models)
  from Cons.prems(1) obtain m ms' where ms: "ms = m # ms'" "length ms' = length models"
    by (cases ms) auto
  from Cons.prems(2) obtain d dss' where dss: "dss = d # dss'" "length dss' = Suc (length models)"
    by (cases dss) auto
  from Cons.prems(3) [rule_format, of 0] have one:
    "update_one E h permission x d = Inr (m, dss' ! 0)"
    by (simp add: ms dss)
  have "\<forall>i<length models.
      update_one E h permission (models ! i) (dss' ! i) = Inr (ms' ! i, dss' ! Suc i)"
  proof (intro allI impI)
    fix i assume "i < length models"
    with Cons.prems(3) [rule_format, of "Suc i"]
    show "update_one E h permission (models ! i) (dss' ! i) = Inr (ms' ! i, dss' ! Suc i)"
      by (simp add: ms dss)
  qed
  from Cons.IH [OF ms(2) dss(2) this, of "same_instance m acc @ [m]"] obtain updated where
    "update_loop E h permission models (same_instance m acc @ [m]) (dss' ! 0)
     = Inr (updated, dss' ! length models)" ..
  with one show ?case by (simp add: dss)
qed

lemma put_batch:
  assumes "json_loads E (request_body h) = Some (VList models)"
    and "permission_of h ''PUT'' = Inr permission"
  shows "put E h collisions None ds =
           (case update_loop E h permission models [] ds of
              Inl e \<Rightarrow> (Inl e, ds)
            | Inr (updated, ds1) \<Rightarrow>
                (case collisions of
                   True # cs \<Rightarrow>
                     (Inl (Exn TransactionFailedError
                             ''The transaction could not be committed. Please try again.''), ds)
                 | _ \<Rightarrow> (Inr (VList (map VModel updated)), ds1)))"
  using assms
  by (simp add: put_def multi_update_models_def transactional_def multi_update_body_def
      split: sum.splits list.splits bool.splits)


text \<open>
  C1. A collection PUT whose body is a JSON array runs the updates of its elements in
  order, each on the datastore the elements before it have left, in one transaction that
  is tried once. When an element raises after the elements before it were updated, the
  request raises the exception of that element and the datastore is as it was before the
  request. When the commit collides with a concurrent write, the request raises
  \<^verbatim>\<open>TransactionFailedError\<close> without a second run, and the datastore is as it
  was. The request raises in no other case, and never changes the datastore when it
  raises. Otherwise the entity of every element was stored under its key, the datastore
  is the one the last element left, and the request returns the entities of the elements,
  each as the last update of its key left it.
\<close>

theorem multi_update_atomic:
  assumes body: "json_loads E (request_body h) = Some (VList models)"
    and perm: "permission_of h ''PUT'' = Inr permission"
  shows "(\<forall>pre x rest updated ds1 e.
            models = pre @ x # rest
            \<and> update_loop E h permission pre [] ds = Inr (updated, ds1)
            \<and> update_one E h permission x ds1 = Inl e \<longrightarrow>
            put E h collisions None ds = (Inl e, ds))
         \<and> (\<forall>updated ds1 cs.
              update_loop E h permission models [] ds = Inr (updated, ds1)
              \<and> collisions = True # cs \<longrightarrow>
              put E h collisions None ds
                = (Inl (Exn TransactionFailedError
                          ''The transaction could not be committed. Please try again.''), ds))
         \<and> (\<forall>updated ds1.
              update_loop E h permission models [] ds = Inr (updated, ds1)
              \<and> (collisions = [] \<or> hd collisions = False) \<longrightarrow>
              put E h collisions None ds = (Inr (VList (map VModel updated)), ds1))
         \<and> (\<forall>e ds'. put E h collisions None ds = (Inl e, ds') \<longrightarrow>
              ds' = ds
              \<and> ((\<exists>pre x rest updated ds1.
                      models = pre @ x # rest
                      \<and> update_loop E h permission pre [] ds = Inr (updated, ds1)
                      \<and> update_one E h permission x ds1 = Inl e)
                  \<or> (\<exists>updated ds1 cs.
                        update_loop E h permission models [] ds = Inr (updated, ds1)
                        \<and> collisions = True # cs
                        \<and> e = Exn TransactionFailedError
                                 ''The transaction could not be committed. Please try again.'')))
         \<and> (\<forall>pre updated ds1.
              update_loop E h permission pre [] ds = Inr (updated, ds1) \<longrightarrow>
              (\<exists>ms dss.
                  length ms = length pre \<and> length dss = Suc (length pre)
                  \<and> dss ! 0 = ds \<and> dss ! length pre = ds1
                  \<and> (\<forall>i<length pre.
                        update_one E h permission (pre ! i) (dss ! i) = Inr (ms ! i, dss ! Suc i)
                        \<and> (\<exists>k. ent_key (ms ! i) = Some k
                               \<and> dss ! Suc i = AList.update k (ms ! i) (dss ! i)
                               \<and> key_get (dss ! Suc i) k = Some (ms ! i)))
                  \<and> length updated = length pre
                  \<and> (\<forall>i<length pre. \<exists>j<length pre.
                        i \<le> j \<and> ent_key (ms ! j) = ent_key (ms ! i) \<and> updated ! i = ms ! j
                        \<and> (\<forall>j'. j < j' \<and> j' < length pre \<longrightarrow>
                               ent_key (ms ! j') \<noteq> ent_key (ms ! i)))))
         \<and> (\<forall>pre ms dss.
              length ms = length pre \<and> length dss = Suc (length pre) \<and> dss ! 0 = ds
              \<and> (\<forall>i<length pre.
                    update_one E h permission (pre ! i) (dss ! i) = Inr (ms ! i, dss ! Suc i)) \<longrightarrow>
              (\<exists>updated. update_loop E h permission pre [] ds = Inr (updated, dss ! length pre)))"
proof (intro conjI allI impI)
  fix pre x rest updated ds1 e
  assume a: "models = pre @ x # rest
            \<and> update_loop E h permission pre [] ds = Inr (updated, ds1)
            \<and> update_one E h permission x ds1 = Inl e"
  then have "update_loop E h permission models [] ds = Inl e"
    by (simp add: update_loop_append)
  then show "put E h collisions None ds = (Inl e, ds)"
    by (simp add: put_batch [OF body perm])
next
  fix updated ds1 cs
  assume "update_loop E h permission models [] ds = Inr (updated, ds1) \<and> collisions = True # cs"
  then show "put E h collisions None ds
                = (Inl (Exn TransactionFailedError
                          ''The transaction could not be committed. Please try again.''), ds)"
    by (simp add: put_batch [OF body perm])
next
  fix updated ds1
  assume "update_loop E h permission models [] ds = Inr (updated, ds1)
          \<and> (collisions = [] \<or> hd collisions = False)"
  then show "put E h collisions None ds = (Inr (VList (map VModel updated)), ds1)"
    by (cases collisions) (auto simp: put_batch [OF body perm])
next
  fix e ds'
  assume a: "put E h collisions None ds = (Inl e, ds')"
  have res: "ds' = ds
        \<and> ((\<exists>pre x rest updated ds1.
                models = pre @ x # rest
                \<and> update_loop E h permission pre [] ds = Inr (updated, ds1)
                \<and> update_one E h permission x ds1 = Inl e)
            \<or> (\<exists>updated ds1 cs.
                  update_loop E h permission models [] ds = Inr (updated, ds1)
                  \<and> collisions = True # cs
                  \<and> e = Exn TransactionFailedError
                           ''The transaction could not be committed. Please try again.''))"
  proof (cases "update_loop E h permission models [] ds")
    case (Inl e')
    with a have "e' = e" "ds' = ds" by (simp_all add: put_batch [OF body perm])
    with Inl update_loop_fails [of E h permission models "[]" ds e] show ?thesis by blast
  next
    case (Inr r)
    obtain updated ds1 where r: "r = (updated, ds1)" by (cases r)
    with Inr a obtain cs where "collisions = True # cs" "ds' = ds"
      "e = Exn TransactionFailedError ''The transaction could not be committed. Please try again.''"
      by (auto simp: put_batch [OF body perm] split: list.splits bool.splits)
    with Inr r show ?thesis by blast
  qed
  from res show "ds' = ds" by blast
  from res show "(\<exists>pre x rest updated ds1.
                models = pre @ x # rest
                \<and> update_loop E h permission pre [] ds = Inr (updated, ds1)
                \<and> update_one E h permission x ds1 = Inl e)
            \<or> (\<exists>updated ds1 cs.
                  update_loop E h permission models [] ds = Inr (updated, ds1)
                  \<and> collisions = True # cs
                  \<and> e = Exn TransactionFailedError
                           ''The transaction could not be committed. Please try again.'')"
    by blast
next
  fix pre updated ds1
  assume a: "update_loop E h permission pre [] ds = Inr (updated, ds1)"
  from update_loop_steps [OF a] obtain ms dss where
    l: "length ms = length pre" "length dss = Suc (length pre)"
    and e: "dss ! 0 = ds" "dss ! length pre = ds1"
    and s: "\<forall>i<length pre.
           update_one E h permission (pre ! i) (dss ! i) = Inr (ms ! i, dss ! Suc i)"
    and u: "updated = fold (\<lambda>m a. same_instance m a @ [m]) ms []"
    by blast
  have s': "\<forall>i<length pre.
              update_one E h permission (pre ! i) (dss ! i) = Inr (ms ! i, dss ! Suc i)
              \<and> (\<exists>k. ent_key (ms ! i) = Some k
                     \<and> dss ! Suc i = AList.update k (ms ! i) (dss ! i)
                     \<and> key_get (dss ! Suc i) k = Some (ms ! i))"
    using s update_one_stores by blast
  from fold_same_instance [of ms] u l(1)
  have f: "length updated = length pre
     \<and> (\<forall>i<length pre. \<exists>j<length pre.
            i \<le> j \<and> ent_key (ms ! j) = ent_key (ms ! i) \<and> updated ! i = ms ! j
            \<and> (\<forall>j'. j < j' \<and> j' < length pre \<longrightarrow> ent_key (ms ! j') \<noteq> ent_key (ms ! i)))"
    by simp
  from l e s' f show "\<exists>ms dss.
                  length ms = length pre \<and> length dss = Suc (length pre)
                  \<and> dss ! 0 = ds \<and> dss ! length pre = ds1
                  \<and> (\<forall>i<length pre.
                        update_one E h permission (pre ! i) (dss ! i) = Inr (ms ! i, dss ! Suc i)
                        \<and> (\<exists>k. ent_key (ms ! i) = Some k
                               \<and> dss ! Suc i = AList.update k (ms ! i) (dss ! i)
                               \<and> key_get (dss ! Suc i) k = Some (ms ! i)))
                  \<and> length updated = length pre
                  \<and> (\<forall>i<length pre. \<exists>j<length pre.
                        i \<le> j \<and> ent_key (ms ! j) = ent_key (ms ! i) \<and> updated ! i = ms ! j
                        \<and> (\<forall>j'. j < j' \<and> j' < length pre \<longrightarrow>
                               ent_key (ms ! j') \<noteq> ent_key (ms ! i)))"
    by blast
next
  fix pre ms dss
  assume a: "length ms = length pre \<and> length dss = Suc (length pre) \<and> dss ! 0 = ds
              \<and> (\<forall>i<length pre.
                    update_one E h permission (pre ! i) (dss ! i) = Inr (ms ! i, dss ! Suc i))"
  then have "\<exists>updated. update_loop E h permission pre [] (dss ! 0)
               = Inr (updated, dss ! length pre)"
    by (intro update_loop_total) auto
  with a show "\<exists>updated. update_loop E h permission pre [] ds = Inr (updated, dss ! length pre)"
    by simp
qed

lemmas batch_defs =
  example_defs2 build_defs put_defs update_one_def model_id_to_model_def key_get_def stored_def
  permission_defs root_batch_def root_twice_def tea_update_def jam_update_def
  jam_update_note1_def note1_tea_def note1_jam_def

lemma batch_tea_ok:
  "update_one E0 root_batch PERMISSION_ADMIN tea_update notes_ds
   = Inr (note1_tea, [(note1_key, note1_tea), (note2_key, note2), (alice_key, alice), (bob_key, bob)])"
  by (simp add: batch_defs)

lemma batch_jam_fails:
  "update_one E0 root_batch PERMISSION_ADMIN jam_update ds1
   = Inl (Exn RESTException (''Missing '' @ [CHR 0x22] @ ''id'' @ [CHR 0x22] @ '' argument for model''))"
  by (simp add: update_one_def jam_update_def)

lemma twice_tea_ok:
  "update_one E0 root_twice PERMISSION_ADMIN tea_update notes_ds
   = Inr (note1_tea, [(note1_key, note1_tea), (note2_key, note2), (alice_key, alice), (bob_key, bob)])"
  by (simp add: batch_defs)

lemma twice_jam_ok:
  "update_one E0 root_twice PERMISSION_ADMIN jam_update_note1
     [(note1_key, note1_tea), (note2_key, note2), (alice_key, alice), (bob_key, bob)]
   = Inr (note1_jam, [(note1_key, note1_jam), (note2_key, note2), (alice_key, alice), (bob_key, bob)])"
  by (simp add: batch_defs)

theorem multi_update_atomic_witness:
  "json_loads E0 (request_body root_batch) = Some (VList [tea_update, jam_update])
   \<and> put E0 root_batch [] None notes_ds
       = (Inl (Exn RESTException
                 (''Missing '' @ [CHR 0x22] @ ''id'' @ [CHR 0x22] @ '' argument for model'')),
          notes_ds)
   \<and> json_loads E0 (request_body root_twice) = Some (VList [tea_update, jam_update_note1])
   \<and> put E0 root_twice [True] None notes_ds
       = (Inl (Exn TransactionFailedError
                 ''The transaction could not be committed. Please try again.''), notes_ds)
   \<and> put E0 root_twice [] None notes_ds
       = (Inr (VList [VModel note1_jam, VModel note1_jam]),
          [(note1_key, note1_jam), (note2_key, note2), (alice_key, alice), (bob_key, bob)])
   \<and> key_get notes_ds note1_key = Some note1 \<and> note1 \<noteq> note1_tea \<and> note1_tea \<noteq> note1_jam"
proof -
  let ?ds1 = "[(note1_key, note1_tea), (note2_key, note2), (alice_key, alice), (bob_key, bob)]"
  let ?ds2 = "[(note1_key, note1_jam), (note2_key, note2), (alice_key, alice), (bob_key, bob)]"
  have b1: "json_loads E0 (request_body root_batch) = Some (VList [tea_update, jam_update])"
    and b2: "json_loads E0 (request_body root_twice) = Some (VList [tea_update, jam_update_note1])"
    by (simp_all add: root_batch_def root_twice_def root_put_def E0_def json_table_def
        tea_update_def jam_update_def jam_update_note1_def)
  have p1: "permission_of root_batch ''PUT'' = Inr PERMISSION_ADMIN"
    and p2: "permission_of root_twice ''PUT'' = Inr PERMISSION_ADMIN"
    by (simp_all add: permission_of_def root_batch_def root_twice_def root_put_def)
  have l1: "update_loop E0 root_batch PERMISSION_ADMIN [tea_update] [] notes_ds
            = Inr ([note1_tea], ?ds1)"
    by (subst update_loop.simps, subst batch_tea_ok) (simp add: same_instance_def)
  have k1: "ent_key note1_tea = ent_key note1_jam"
    by (simp add: note1_tea_def note1_jam_def)
  have l2: "update_loop E0 root_twice PERMISSION_ADMIN [tea_update, jam_update_note1] [] notes_ds
            = Inr ([note1_jam, note1_jam], ?ds2)"
    by (subst update_loop.simps, subst twice_tea_ok, simp only: sum.case prod.case,
        subst update_loop.simps, subst twice_jam_ok) (simp add: same_instance_def k1)
  have s: "[tea_update, jam_update] = [tea_update] @ jam_update # []" by simp
  have k: "key_get notes_ds note1_key = Some note1" "note1 \<noteq> note1_tea" "note1_tea \<noteq> note1_jam"
    by (simp_all add: example_defs key_get_def stored_def note1_tea_def note1_jam_def)
  note fails = multi_update_atomic [OF b1 p1, of notes_ds "[]", THEN conjunct1, rule_format]
  note collides =
    multi_update_atomic [OF b2 p2, of notes_ds "[True]", THEN conjunct2, THEN conjunct1,
      rule_format]
  note commits =
    multi_update_atomic [OF b2 p2, of notes_ds "[]", THEN conjunct2, THEN conjunct2,
      THEN conjunct1, rule_format]
  have 1: "put E0 root_batch [] None notes_ds
       = (Inl (Exn RESTException
                 (''Missing '' @ [CHR 0x22] @ ''id'' @ [CHR 0x22] @ '' argument for model'')),
          notes_ds)"
    by (rule fails [of "[tea_update]" jam_update "[]" "[note1_tea]" ?ds1])
       (simp only: s l1 batch_jam_fails simp_thms)
  have 2: "put E0 root_twice [True] None notes_ds
       = (Inl (Exn TransactionFailedError
                 ''The transaction could not be committed. Please try again.''), notes_ds)"
    by (rule collides [of "[note1_jam, note1_jam]" ?ds2 "[]"]) (simp only: l2 simp_thms)
  have "put E0 root_twice [] None notes_ds
        = (Inr (VList (map VModel [note1_jam, note1_jam])), ?ds2)"
    by (rule commits [of "[note1_jam, note1_jam]" ?ds2]) (simp only: l2 simp_thms)
  then have 3: "put E0 root_twice [] None notes_ds
       = (Inr (VList [VModel note1_jam, VModel note1_jam]), ?ds2)"
    by simp
  from b1 1 b2 2 3 k show ?thesis by (intro conjI)
qed

section \<open>Theorems: the scope of the owner\<close>

lemma ent_values_stored: "ent_values (stored b) = ent_values (snd b)"
  by (simp add: stored_def)

lemma undelivered_set:
  "set (undelivered E ds q c)
   = stored ` {b \<in> set ds. query_admits E q b \<and> fst b \<notin> set (cursor_keys c)}"
  by (auto simp: undelivered_def set_run_query ent_key_stored)

lemma fetch_page_results:
  assumes "fetch_page E ds q limit c = Inr (results, c', more_available)"
  shows "results = take limit (undelivered E ds q c)"
    and "more_available = (limit < length (undelivered E ds q c))"
    and "results \<noteq> [] \<Longrightarrow> cursor_keys c' = cursor_keys c @ List.map_filter ent_key results"
  using assms by (auto simp: fetch_page_def Let_def cursor_keys_def split: if_splits option.splits)

lemma key_delete_filter: "key_delete ds k = filter (\<lambda>b. fst b \<noteq> k) ds"
  by (auto simp: key_delete_def AList.delete_eq case_prod_unfold intro: filter_cong)

lemma delete_each_ok:
  "delete_each cb ms acc ds = (Inr acc', ds') \<Longrightarrow>
   acc' = acc @ ms \<and> ds' = filter (\<lambda>b. Some (fst b) \<notin> ent_key ` set ms) ds"
proof (induction ms arbitrary: acc ds)
  case Nil
  then show ?case by simp
next
  case (Cons m ms)
  from Cons.prems obtain k where k: "ent_key m = Some k" and c: "cb m = None"
    and r: "delete_each cb ms (acc @ [m]) (key_delete ds k) = (Inr acc', ds')"
    by (auto split: option.splits)
  from Cons.IH [OF r] k show ?case
    by (auto simp: key_delete_filter intro: filter_cong)
qed

lemma delete_each_safe:
  "delete_each cb ms acc ds = (r, ds') \<Longrightarrow> b \<in> set ds \<Longrightarrow>
   Some (fst b) \<notin> ent_key ` set ms \<Longrightarrow> b \<in> set ds'"
proof (induction ms arbitrary: acc ds)
  case Nil
  then show ?case by simp
next
  case (Cons m ms)
  show ?case
  proof (cases "cb m = None \<and> ent_key m \<noteq> None")
    case True
    then obtain k where k: "ent_key m = Some k" and c: "cb m = None" by auto
    with Cons.prems(1) have r: "delete_each cb ms (acc @ [m]) (key_delete ds k) = (r, ds')"
      by simp
    from Cons.prems(2,3) k have "b \<in> set (key_delete ds k)"
      by (auto simp: key_delete_filter)
    from Cons.IH [OF r this] Cons.prems(3) show ?thesis by auto
  next
    case False
    with Cons.prems show ?thesis by (auto split: option.splits)
  qed
qed

lemma fold_key_delete:
  "fold (\<lambda>k ds'. key_delete ds' k) ks ds = filter (\<lambda>b. fst b \<notin> set ks) ds"
  by (induction ks arbitrary: ds) (auto simp: key_delete_filter intro: filter_cong)

lemma map_filter_keys:
  "\<not> list_ex (\<lambda>m. ent_key m = None) ms \<Longrightarrow>
   k \<in> set (List.map_filter ent_key ms) \<longleftrightarrow> Some k \<in> ent_key ` set ms"
  by (induction ms) (auto simp: map_filter_simps split: option.splits)

lemma delete_page_ok:
  assumes "delete_page h results acc ds = (Inr acc', ds')"
  shows "acc' = acc @ results \<and> ds' = filter (\<lambda>b. Some (fst b) \<notin> ent_key ` set results) ds"
proof (cases "results = []")
  case True
  with assms show ?thesis by (simp add: delete_page_def)
next
  case False
  show ?thesis
  proof (cases "delete_callback h")
    case None
    with False assms have ne: "\<not> list_ex (\<lambda>m. ent_key m = None) results"
      and r: "acc' = acc @ results"
        "ds' = fold (\<lambda>k ds'. key_delete ds' k) (List.map_filter ent_key results) ds"
      by (auto simp: delete_page_def delete_multi_def split: if_splits)
    from r ne show ?thesis
      by (auto simp: fold_key_delete map_filter_keys intro: filter_cong)
  next
    case (Some cb)
    with False assms have "delete_each cb results acc ds = (Inr acc', ds')"
      by (simp add: delete_page_def)
    then show ?thesis by (rule delete_each_ok)
  qed
qed

lemma delete_page_safe:
  assumes "delete_page h results acc ds = (r, ds')" and "b \<in> set ds"
    and "Some (fst b) \<notin> ent_key ` set results"
  shows "b \<in> set ds'"
proof (cases "results = []")
  case True
  with assms show ?thesis by (simp add: delete_page_def)
next
  case False
  show ?thesis
  proof (cases "delete_callback h")
    case None
    show ?thesis
    proof (cases "list_ex (\<lambda>m. ent_key m = None) results")
      case True
      with None False assms show ?thesis by (simp add: delete_page_def delete_multi_def)
    next
      case ne: False
      with None False assms have
        "ds' = fold (\<lambda>k ds'. key_delete ds' k) (List.map_filter ent_key results) ds"
        by (auto simp: delete_page_def delete_multi_def)
      with assms ne show ?thesis
        by (auto simp: fold_key_delete map_filter_keys)
    qed
  next
    case (Some cb)
    with False assms have "delete_each cb results acc ds = (r, ds')"
      by (simp add: delete_page_def)
    from delete_each_safe [OF this assms(2,3)] show ?thesis .
  qed
qed

lemma same_key_same_binding:
  "distinct (map fst ds) \<Longrightarrow> b \<in> set ds \<Longrightarrow> b' \<in> set ds \<Longrightarrow> fst b = fst b' \<Longrightarrow> b = b'"
  by (metis eq_key_imp_eq_value prod.collapse)

lemma page_bindings:
  assumes d: "distinct (map fst ds)"
    and sub: "set results \<subseteq> stored ` {b \<in> set ds. query_admits E q b}"
  shows "{b \<in> set ds. Some (fst b) \<in> ent_key ` set results}
           \<subseteq> {b \<in> set ds. query_admits E q b}"
    and "set results = stored ` {b \<in> set ds. Some (fst b) \<in> ent_key ` set results}"
proof -
  show 1: "{b \<in> set ds. Some (fst b) \<in> ent_key ` set results}
           \<subseteq> {b \<in> set ds. query_admits E q b}"
  proof
    fix b
    assume "b \<in> {b \<in> set ds. Some (fst b) \<in> ent_key ` set results}"
    then obtain m where b: "b \<in> set ds" and m: "m \<in> set results" "ent_key m = Some (fst b)"
      by force
    from m(1) sub obtain b0 where b0: "b0 \<in> set ds" "query_admits E q b0" "m = stored b0"
      by auto
    with m(2) have "fst b0 = fst b" by (simp add: ent_key_stored)
    with d b b0 have "b0 = b" by (blast intro: same_key_same_binding)
    with b b0 show "b \<in> {b \<in> set ds. query_admits E q b}" by simp
  qed
  show "set results = stored ` {b \<in> set ds. Some (fst b) \<in> ent_key ` set results}"
  proof (intro equalityI subsetI)
    fix m
    assume m: "m \<in> set results"
    with sub obtain b0 where b0: "b0 \<in> set ds" "m = stored b0" by auto
    then have "ent_key m = Some (fst b0)" by (simp add: ent_key_stored)
    with m have "Some (fst b0) \<in> ent_key ` set results" by force
    with b0 show "m \<in> stored ` {b \<in> set ds. Some (fst b) \<in> ent_key ` set results}" by blast
  next
    fix m
    assume "m \<in> stored ` {b \<in> set ds. Some (fst b) \<in> ent_key ` set results}"
    then obtain b m' where b: "b \<in> set ds" "m = stored b"
      and m': "m' \<in> set results" "ent_key m' = Some (fst b)"
      by force
    from m'(1) sub obtain b0 where b0: "b0 \<in> set ds" "m' = stored b0" by auto
    with m'(2) have "fst b0 = fst b" by (simp add: ent_key_stored)
    with d b b0 have "b0 = b" by (blast intro: same_key_same_binding)
    with b b0 m' show "m \<in> set results" by simp
  qed
qed

lemma delete_pages_safe:
  assumes "delete_pages E h q c acc ds = (r, ds')" and "distinct (map fst ds)"
    and "b \<in> set ds" and "\<not> query_admits E q b"
  shows "b \<in> set ds'"
  using assms
proof (induction "pending E q c ds" arbitrary: c acc ds rule: less_induct)
  case less
  show ?case
  proof (cases "fetch_page E ds q DEFAULT_MAX_QUERY_RESULTS c")
    case (Inl e)
    with less.prems(1,3) show ?thesis by (simp add: delete_pages.simps)
  next
    case (Inr page)
    obtain results c' more_available where page: "page = (results, c', more_available)"
      by (cases page)
    note fp = Inr [unfolded page]
    obtain x ds1 where dp: "delete_page h results acc ds = (x, ds1)"
      by (cases "delete_page h results acc ds")
    have sub: "set results \<subseteq> stored ` {b \<in> set ds. query_admits E q b}"
      using fetch_page_results(1) [OF fp] undelivered_set [of E ds q c]
      by (auto dest!: in_set_takeD)
    have "Some (fst b) \<notin> ent_key ` set results"
      using page_bindings(1) [OF less.prems(2) sub] less.prems(3,4) by auto
    with dp less.prems(3) have b1: "b \<in> set ds1" by (blast intro: delete_page_safe)
    from delete_page_filter [OF dp] less.prems(2) have d1: "distinct (map fst ds1)"
      by (auto simp: distinct_map_filter)
    show ?thesis
    proof (cases "\<exists>acc'. x = Inr acc' \<and> more_available")
      case True
      then obtain acc' where x: "x = Inr acc'" and m: more_available by auto
      from less.prems(1) fp dp x m have rec: "delete_pages E h q c' acc' ds1 = (r, ds')"
        by (simp add: delete_pages.simps [of E h q c acc ds])
      from fp m have fp': "fetch_page E ds q DEFAULT_MAX_QUERY_RESULTS c = Inr (results, c', True)"
        by simp
      have "pending E q c' ds1 < pending E q c ds"
        by (rule pending_decreases [OF fp' dp [symmetric]])
          (simp add: DEFAULT_MAX_QUERY_RESULTS_def)
      from less.hyps [OF this rec d1 b1 less.prems(4)] show ?thesis .
    next
      case False
      with less.prems(1) fp dp have "ds' = ds1"
        by (cases x) (auto simp: delete_pages.simps [of E h q c acc ds])
      with b1 show ?thesis by simp
    qed
  qed
qed


lemma delete_pages_exact:
  assumes "delete_pages E h q c acc ds = (Inr out, ds')" and "distinct (map fst ds)"
    and "\<forall>b\<in>set ds. query_admits E q b \<longrightarrow> fst b \<notin> set (cursor_keys c)"
  shows "ds' = filter (\<lambda>b. \<not> query_admits E q b) ds
         \<and> (\<exists>del. out = acc @ del \<and> set del = stored ` {b \<in> set ds. query_admits E q b})"
  using assms
proof (induction "pending E q c ds" arbitrary: c acc ds rule: less_induct)
  case less
  let ?A = "{b \<in> set ds. query_admits E q b}"
  from less.prems(1) obtain page where
    fp0: "fetch_page E ds q DEFAULT_MAX_QUERY_RESULTS c = Inr page"
    by (cases "fetch_page E ds q DEFAULT_MAX_QUERY_RESULTS c")
       (auto simp: delete_pages.simps [of E h q c acc ds])
  obtain results c' more_available where page: "page = (results, c', more_available)"
    by (cases page)
  note fp = fp0 [unfolded page]
  obtain x ds1 where dp0: "delete_page h results acc ds = (x, ds1)"
    by (cases "delete_page h results acc ds")
  with less.prems(1) fp obtain acc' where x: "x = Inr acc'"
    by (cases x) (auto simp: delete_pages.simps [of E h q c acc ds])
  note dp = dp0 [unfolded x]
  let ?K = "{b \<in> set ds. Some (fst b) \<in> ent_key ` set results}"
  have rest: "set (undelivered E ds q c) = stored ` ?A"
    using less.prems(3) by (auto simp: undelivered_set)
  have res: "results = take DEFAULT_MAX_QUERY_RESULTS (undelivered E ds q c)"
    by (rule fetch_page_results(1) [OF fp])
  have sub: "set results \<subseteq> stored ` ?A"
    using res rest by (auto dest!: in_set_takeD)
  note KA = page_bindings(1) [OF less.prems(2) sub]
  note RK = page_bindings(2) [OF less.prems(2) sub]
  from delete_page_ok [OF dp] have acc': "acc' = acc @ results"
    and ds1: "ds1 = filter (\<lambda>b. b \<notin> ?K) ds"
    by (auto intro: filter_cong)
  show ?case
  proof (cases more_available)
    case False
    with less.prems(1) fp dp have out: "out = acc'" "ds' = ds1"
      by (auto simp: delete_pages.simps [of E h q c acc ds])
    from False fetch_page_results(2) [OF fp] res
    have "results = undelivered E ds q c" by simp
    with rest have all: "set results = stored ` ?A" by simp
    have "?A \<subseteq> ?K"
    proof
      fix b
      assume b: "b \<in> ?A"
      then have "stored b \<in> set results" using all by blast
      then have "Some (fst b) \<in> ent_key ` set results"
        by (metis ent_key_stored image_eqI)
      with b show "b \<in> ?K" by simp
    qed
    with KA have "?K = ?A" by blast
    then have "ds1 = filter (\<lambda>b. \<not> query_admits E q b) ds"
      unfolding ds1 by (intro filter_cong) auto
    with out acc' all show ?thesis by blast
  next
    case True
    with less.prems(1) fp dp have rec: "delete_pages E h q c' acc' ds1 = (Inr out, ds')"
      by (simp add: delete_pages.simps [of E h q c acc ds])
    from fp True have fp': "fetch_page E ds q DEFAULT_MAX_QUERY_RESULTS c = Inr (results, c', True)"
      by simp
    have dec: "pending E q c' ds1 < pending E q c ds"
      by (rule pending_decreases [OF fp' dp [symmetric]])
         (simp add: DEFAULT_MAX_QUERY_RESULTS_def)
    have d1: "distinct (map fst ds1)"
      using less.prems(2) by (simp add: ds1 distinct_map_filter)
    have rne: "results \<noteq> []"
      using fetch_page_results(2) [OF fp] True res
      by (auto simp: DEFAULT_MAX_QUERY_RESULTS_def)
    have ck: "cursor_keys c' = cursor_keys c @ List.map_filter ent_key results"
      by (rule fetch_page_results(3) [OF fp rne])
    have inv: "\<forall>b\<in>set ds1. query_admits E q b \<longrightarrow> fst b \<notin> set (cursor_keys c')"
    proof (intro ballI impI)
      fix b
      assume b: "b \<in> set ds1" and a: "query_admits E q b"
      then have bd: "b \<in> set ds" and nk: "b \<notin> ?K" by (auto simp: ds1)
      from bd a less.prems(3) have 1: "fst b \<notin> set (cursor_keys c)" by blast
      have 2: "fst b \<notin> set (List.map_filter ent_key results)"
      proof
        assume "fst b \<in> set (List.map_filter ent_key results)"
        then have "Some (fst b) \<in> ent_key ` set results"
          by (force simp: List.map_filter_def)
        with bd nk show False by simp
      qed
      from 1 2 show "fst b \<notin> set (cursor_keys c')" by (simp add: ck)
    qed
    from less.hyps [OF dec rec d1 inv] obtain del' where
      ds': "ds' = filter (\<lambda>b. \<not> query_admits E q b) ds1"
      and out: "out = acc' @ del'"
      and del': "set del' = stored ` {b \<in> set ds1. query_admits E q b}"
      by blast
    have "ds' = filter (\<lambda>b. \<not> query_admits E q b) ds"
      unfolding ds' ds1 filter_filter using KA by (intro filter_cong) auto
    moreover have "out = acc @ (results @ del')" by (simp add: out acc')
    moreover have "set (results @ del') = stored ` ?A"
    proof -
      have "{b \<in> set ds1. query_admits E q b} = ?A - ?K" by (auto simp: ds1)
      with del' RK have "set (results @ del') = stored ` ?K \<union> stored ` (?A - ?K)" by simp
      also have "\<dots> = stored ` ?A" using KA by blast
      finally show ?thesis .
    qed
    ultimately show ?thesis by blast
  qed
qed

lemma query_admits_append:
  "q_kind query = q_kind base \<Longrightarrow> q_filters query = q_filters base @ [FilterEq p v] \<Longrightarrow>
   query_admits E query b
   = (query_admits E base b \<and> map_of (ent_values (snd b)) p = Some v)"
  by (auto simp: query_admits_def ent_values_stored)

lemma order_query_same:
  "order_query E h q = Inr q' \<Longrightarrow> q_kind q' = q_kind q \<and> q_filters q' = q_filters q"
  by (auto simp: order_query_def query_order_def split: if_splits sum.splits)

lemma owner_filter_value:
  "owner_filter h = Inr f \<Longrightarrow> h_user h = Some u \<Longrightarrow> h_user_owner_property h = Inr p \<Longrightarrow>
   f = FilterEq p (key_val u)"
  by (auto simp: owner_filter_def split: sum.splits option.splits)

lemma get_query_owner:
  assumes "permission_of h ''GET'' = Inr PERMISSION_OWNER_USER" and "h_user h = Some u"
    and "h_user_owner_property h = Inr p" and "get_query E h = Inr query"
  shows "\<exists>base. filter_query E h = Inr base \<and> q_kind query = q_kind base
           \<and> q_filters query = q_filters base @ [FilterEq p (key_val u)]"
proof -
  from assms(4) obtain base where b: "filter_query E h = Inr base"
    by (cases "filter_query E h") (auto simp: get_query_def)
  with assms(1,4) obtain f where f: "owner_filter h = Inr f"
    and o: "order_query E h (query_filter base f) = Inr query"
    by (cases "owner_filter h") (auto simp: get_query_def)
  from owner_filter_value [OF f assms(2,3)] order_query_same [OF o] b show ?thesis
    by (auto simp: query_filter_def)
qed

lemma run_query_owner:
  assumes "q_kind query = q_kind base" and "q_filters query = q_filters base @ [FilterEq p v]"
  shows "set (run_query E ds query)
         = {m \<in> set (run_query E ds base). map_of (ent_values m) p = Some v}"
  by (auto simp: set_run_query query_admits_append [OF assms] ent_values_stored)

lemma filter_query_kind:
  "filter_query E h = Inr base \<Longrightarrow> q_kind base = cls_kind (h_model h)"
  by (auto simp: filter_query_def model_query_def split: if_splits option.splits)

lemma fetch_query_results:
  "fetch_query E h ds q = Inr (results, cursor) \<Longrightarrow> set results \<subseteq> set (run_query E ds q)"
  by (auto simp: fetch_query_def fetch_page_def undelivered_def Let_def
      split: sum.splits if_splits option.splits dest!: in_set_takeD)

lemma get_collection_results:
  assumes "get E h None ds = (Inr v, ds')" and "get_callback h = None"
  shows "ds' = ds \<and> (\<exists>query results cursor.
           get_query E h = Inr query \<and> fetch_query E h ds query = Inr (results, cursor)
           \<and> v = VDict [(''results'', VList (map VModel results)),
                        (''next_results_url'', build_next_query_url E h cursor)])"
  using assms by (auto simp: get_def split: sum.splits)

lemma on_exception_not_denied:
  "on_exception e \<noteq> PermissionDenied reason" "on_exception e \<noteq> Unauthorized"
  "on_exception e \<noteq> MethodNotAllowed"
  by (simp_all add: on_exception_def)

lemma owner_collection_not_denied:
  assumes "map_of (h_permissions h) method_name = Some PERMISSION_OWNER_USER"
    and "h_user h = Some u"
  shows "fst (rest_method_wrapper E h method_name func [] ds) \<noteq> PermissionDenied reason"
    and "fst (rest_method_wrapper E h method_name func [] ds) \<noteq> Unauthorized"
    and "fst (rest_method_wrapper E h method_name func [] ds) \<noteq> MethodNotAllowed"
    and "rest_method_wrapper E h method_name func [] ds =
           (case func None ds of
              (Inl e, ds') \<Rightarrow> (on_exception e, ds')
            | (Inr result, ds') \<Rightarrow> (Success result, ds'))"
proof -
  show w: "rest_method_wrapper E h method_name func [] ds =
           (case func None ds of
              (Inl e, ds') \<Rightarrow> (on_exception e, ds')
            | (Inr result, ds') \<Rightarrow> (Success result, ds'))"
    using assms by (intro gate_allowed_collection) (auto simp: permissions_distinct)
  show "fst (rest_method_wrapper E h method_name func [] ds) \<noteq> PermissionDenied reason"
    "fst (rest_method_wrapper E h method_name func [] ds) \<noteq> Unauthorized"
    "fst (rest_method_wrapper E h method_name func [] ds) \<noteq> MethodNotAllowed"
    unfolding w
    by (auto simp: on_exception_not_denied split: prod.splits sum.splits)
qed

lemma delete_query_admits:
  "query_admits E (query_filter (model_query cls) (FilterEq p (key_val u))) b = owned_by cls p u b"
  by (simp add: query_admits_def query_filter_def model_query_def owned_by_def ent_values_stored)

lemma delete_collection_unfold:
  assumes "permission_of h ''DELETE'' = Inr PERMISSION_OWNER_USER" and "h_user h = Some u"
    and "h_user_owner_property h = Inr p"
  shows "(\<exists>e. delete E h None ds = (Inl e, ds))
         \<or> delete E h None ds =
             (case delete_pages E h
                     (query_filter (model_query (h_model h)) (FilterEq p (key_val u))) None [] ds of
                (Inl e, ds') \<Rightarrow> (Inl e, ds')
              | (Inr deleted_models, ds') \<Rightarrow> (Inr (VList (map VModel deleted_models)), ds'))"
proof (cases "owner_filter h")
  case (Inl e)
  with assms(1) show ?thesis by (simp add: delete_def)
next
  case (Inr f)
  from owner_filter_value [OF Inr assms(2,3)] Inr assms(1) show ?thesis
    by (simp add: delete_def)
qed

lemma owner_scope_collection:
  assumes u: "h_user h = Some u" and p: "h_user_owner_property h = Inr p"
  shows "(permission_of h ''GET'' = Inr PERMISSION_OWNER_USER \<longrightarrow>
            (\<forall>reason. fst (rest_method_wrapper E h ''GET'' (get E h) [] ds)
                         \<noteq> PermissionDenied reason)
            \<and> (\<forall>query. get_query E h = Inr query \<longrightarrow>
                  (\<exists>base. filter_query E h = Inr base
                     \<and> set (run_query E ds query)
                         = {m \<in> set (run_query E ds base).
                              map_of (ent_values m) p = Some (key_val u)}))
            \<and> (\<forall>v ds'. get E h None ds = (Inr v, ds') \<and> get_callback h = None \<longrightarrow>
                  ds' = ds
                  \<and> (\<exists>results next.
                        v = VDict [(''results'', VList (map VModel results)),
                                   (''next_results_url'', next)]
                        \<and> (\<forall>m\<in>set results.
                              \<exists>b\<in>set ds. m = stored b \<and> owned_by (h_model h) p u b))))
         \<and> (permission_of h ''DELETE'' = Inr PERMISSION_OWNER_USER \<and> distinct (map fst ds) \<longrightarrow>
              (\<forall>reason. fst (rest_method_wrapper E h ''DELETE'' (delete E h) [] ds)
                           \<noteq> PermissionDenied reason)
              \<and> (\<forall>r ds' b. delete E h None ds = (r, ds') \<and> b \<in> set ds
                     \<and> \<not> owned_by (h_model h) p u b \<longrightarrow> b \<in> set ds')
              \<and> (\<forall>v ds'. delete E h None ds = (Inr v, ds') \<longrightarrow>
                    ds' = filter (\<lambda>b. \<not> owned_by (h_model h) p u b) ds
                    \<and> (\<exists>del. v = VList (map VModel del)
                          \<and> set del = stored ` {b \<in> set ds. owned_by (h_model h) p u b})))"
proof (intro conjI impI allI)
  fix reason
  assume "permission_of h ''GET'' = Inr PERMISSION_OWNER_USER"
  then have "map_of (h_permissions h) ''GET'' = Some PERMISSION_OWNER_USER"
    by (auto simp: permission_of_def split: option.splits)
  from owner_collection_not_denied(1) [OF this u]
  show "fst (rest_method_wrapper E h ''GET'' (get E h) [] ds) \<noteq> PermissionDenied reason" .
next
  fix query
  assume g: "permission_of h ''GET'' = Inr PERMISSION_OWNER_USER" and q: "get_query E h = Inr query"
  from get_query_owner [OF g u p q] obtain base where
    b: "filter_query E h = Inr base" "q_kind query = q_kind base"
       "q_filters query = q_filters base @ [FilterEq p (key_val u)]"
    by blast
  from run_query_owner [OF b(2,3)] b(1)
  show "\<exists>base. filter_query E h = Inr base
          \<and> set (run_query E ds query)
              = {m \<in> set (run_query E ds base). map_of (ent_values m) p = Some (key_val u)}"
    by blast
next
  fix v ds'
  assume g: "permission_of h ''GET'' = Inr PERMISSION_OWNER_USER"
    and r: "get E h None ds = (Inr v, ds') \<and> get_callback h = None"
  from r get_collection_results [of E h ds v ds'] obtain query results cursor where
    ds: "ds' = ds" and q: "get_query E h = Inr query"
    and f: "fetch_query E h ds query = Inr (results, cursor)"
    and v: "v = VDict [(''results'', VList (map VModel results)),
                       (''next_results_url'', build_next_query_url E h cursor)]"
    by blast
  from get_query_owner [OF g u p q] obtain base where
    b: "filter_query E h = Inr base" "q_kind query = q_kind base"
       "q_filters query = q_filters base @ [FilterEq p (key_val u)]"
    by blast
  have "\<forall>m\<in>set results. \<exists>b\<in>set ds. m = stored b \<and> owned_by (h_model h) p u b"
  proof
    fix m
    assume "m \<in> set results"
    with fetch_query_results [OF f] have "m \<in> set (run_query E ds query)" by blast
    then obtain b0 where b0: "b0 \<in> set ds" "query_admits E query b0" "m = stored b0"
      by (auto simp: set_run_query)
    from b0(2) have "query_admits E base b0 \<and> map_of (ent_values (snd b0)) p = Some (key_val u)"
      by (simp add: query_admits_append [OF b(2,3)])
    then have "owned_by (h_model h) p u b0"
      using filter_query_kind [OF b(1)] by (simp add: owned_by_def query_admits_def)
    with b0 show "\<exists>b\<in>set ds. m = stored b \<and> owned_by (h_model h) p u b" by blast
  qed
  with v show "\<exists>results next.
         v = VDict [(''results'', VList (map VModel results)), (''next_results_url'', next)]
         \<and> (\<forall>m\<in>set results. \<exists>b\<in>set ds. m = stored b \<and> owned_by (h_model h) p u b)"
    by blast
  from ds show "ds' = ds" .
next
  fix reason
  assume "permission_of h ''DELETE'' = Inr PERMISSION_OWNER_USER \<and> distinct (map fst ds)"
  then have "map_of (h_permissions h) ''DELETE'' = Some PERMISSION_OWNER_USER"
    by (auto simp: permission_of_def split: option.splits)
  from owner_collection_not_denied(1) [OF this u]
  show "fst (rest_method_wrapper E h ''DELETE'' (delete E h) [] ds) \<noteq> PermissionDenied reason" .
next
  fix r ds' b
  let ?q = "query_filter (model_query (h_model h)) (FilterEq p (key_val u))"
  assume a: "permission_of h ''DELETE'' = Inr PERMISSION_OWNER_USER \<and> distinct (map fst ds)"
    and d: "delete E h None ds = (r, ds') \<and> b \<in> set ds \<and> \<not> owned_by (h_model h) p u b"
  from a have perm: "permission_of h ''DELETE'' = Inr PERMISSION_OWNER_USER"
    and dist: "distinct (map fst ds)" by simp_all
  from delete_collection_unfold [OF perm u p, of E ds]
  show "b \<in> set ds'"
  proof
    assume "\<exists>e. delete E h None ds = (Inl e, ds)"
    with d show ?thesis by auto
  next
    assume e: "delete E h None ds =
             (case delete_pages E h ?q None [] ds of
                (Inl e, ds') \<Rightarrow> (Inl e, ds')
              | (Inr deleted_models, ds') \<Rightarrow> (Inr (VList (map VModel deleted_models)), ds'))"
    obtain x ds1 where l: "delete_pages E h ?q None [] ds = (x, ds1)"
      by (cases "delete_pages E h ?q None [] ds")
    with e d have "ds' = ds1" by (cases x) auto
    moreover from d have "\<not> query_admits E ?q b" by (simp add: delete_query_admits)
    ultimately show ?thesis
      using delete_pages_safe [OF l dist] d by blast
  qed
next
  fix v ds'
  let ?q = "query_filter (model_query (h_model h)) (FilterEq p (key_val u))"
  assume a: "permission_of h ''DELETE'' = Inr PERMISSION_OWNER_USER \<and> distinct (map fst ds)"
    and d: "delete E h None ds = (Inr v, ds')"
  from a have perm: "permission_of h ''DELETE'' = Inr PERMISSION_OWNER_USER"
    and dist: "distinct (map fst ds)" by simp_all
  from delete_collection_unfold [OF perm u p, of E ds] d
  have e: "delete E h None ds =
             (case delete_pages E h ?q None [] ds of
                (Inl e, ds') \<Rightarrow> (Inl e, ds')
              | (Inr deleted_models, ds') \<Rightarrow> (Inr (VList (map VModel deleted_models)), ds'))"
    by auto
  obtain x ds1 where l: "delete_pages E h ?q None [] ds = (x, ds1)"
    by (cases "delete_pages E h ?q None [] ds")
  with e d obtain del where x: "x = Inr del" and v: "v = VList (map VModel del)" and s: "ds' = ds1"
    by (cases x) auto
  have inv: "\<forall>b\<in>set ds. query_admits E ?q b \<longrightarrow> fst b \<notin> set (cursor_keys None)"
    by (simp add: cursor_keys_def)
  from delete_pages_exact [OF l [unfolded x] dist inv] v s
  have res: "ds' = filter (\<lambda>b. \<not> owned_by (h_model h) p u b) ds
        \<and> (\<exists>del. v = VList (map VModel del)
              \<and> set del = stored ` {b \<in> set ds. owned_by (h_model h) p u b})"
    by (auto simp: delete_query_admits)
  from res show "ds' = filter (\<lambda>b. \<not> owned_by (h_model h) p u b) ds" by blast
  from res show "\<exists>del. v = VList (map VModel del)
              \<and> set del = stored ` {b \<in> set ds. owned_by (h_model h) p u b}" by blast
qed


lemma owner_trailing_slash:
  assumes "map_of (h_permissions h) method_name = Some PERMISSION_OWNER_USER"
    and "h_user h = Some u" and "h_user_owner_property h = Inr p"
  shows "rest_method_wrapper E h method_name func ''/'' ds =
           (Uncaught (Exn AttributeError (''NoneType object has no attribute '' @ p)), ds)"
  using assms
  by (simp add: rest_method_wrapper_def permissions_distinct model_id_to_model_def
      not_owned_def get_model_owner_def getattr_model_def on_exception_def)


text \<open>
  C5. With a user logged in and the owner property declared, a GET or a DELETE of the
  collection under \<^verbatim>\<open>PERMISSION_OWNER_USER\<close>, at the URL of the resource, reaches
  the method with no entity, and the answer of the request is the answer of the method.
  The query of the GET is the query of the user's filter restricted to the entities whose
  owner property is the key of the user, and every entity the GET returns (no callback
  set) is a stored entity of the model with that owner. The DELETE removes no entity of
  another owner or kind, whatever happens, and when it returns it has removed exactly the
  stored entities of the model owned by the user, which are the entities it returns. At
  the URL of the resource followed by a slash, which the route accepts as a request of
  the collection, neither method is reached: the wrapper takes the branch of an addressed
  entity, and \<^verbatim>\<open>get_model_owner(None)\<close> raises an \<^verbatim>\<open>AttributeError\<close> that
  nothing catches.
\<close>

theorem owner_scope:
  assumes u: "h_user h = Some u" and p: "h_user_owner_property h = Inr p"
  shows "(permission_of h ''GET'' = Inr PERMISSION_OWNER_USER \<longrightarrow>
            rest_method_wrapper E h ''GET'' (get E h) [] ds =
              (case get E h None ds of
                 (Inl e, ds') \<Rightarrow> (on_exception e, ds')
               | (Inr v, ds') \<Rightarrow> (Success v, ds'))
            \<and> (\<forall>query. get_query E h = Inr query \<longrightarrow>
                  (\<exists>base. filter_query E h = Inr base
                     \<and> set (run_query E ds query)
                         = {m \<in> set (run_query E ds base).
                              map_of (ent_values m) p = Some (key_val u)}))
            \<and> (\<forall>v ds'. get E h None ds = (Inr v, ds') \<and> get_callback h = None \<longrightarrow>
                  ds' = ds
                  \<and> (\<exists>results next.
                        v = VDict [(''results'', VList (map VModel results)),
                                   (''next_results_url'', next)]
                        \<and> (\<forall>m\<in>set results.
                              \<exists>b\<in>set ds. m = stored b \<and> owned_by (h_model h) p u b)))
            \<and> (\<forall>func. rest_method_wrapper E h ''GET'' func ''/'' ds =
                  (Uncaught (Exn AttributeError (''NoneType object has no attribute '' @ p)), ds)))
         \<and> (permission_of h ''DELETE'' = Inr PERMISSION_OWNER_USER \<and> distinct (map fst ds) \<longrightarrow>
              rest_method_wrapper E h ''DELETE'' (delete E h) [] ds =
                (case delete E h None ds of
                   (Inl e, ds') \<Rightarrow> (on_exception e, ds')
                 | (Inr v, ds') \<Rightarrow> (Success v, ds'))
              \<and> (\<forall>r ds' b. delete E h None ds = (r, ds') \<and> b \<in> set ds
                     \<and> \<not> owned_by (h_model h) p u b \<longrightarrow> b \<in> set ds')
              \<and> (\<forall>v ds'. delete E h None ds = (Inr v, ds') \<longrightarrow>
                    ds' = filter (\<lambda>b. \<not> owned_by (h_model h) p u b) ds
                    \<and> (\<exists>del. v = VList (map VModel del)
                          \<and> set del = stored ` {b \<in> set ds. owned_by (h_model h) p u b}))
              \<and> (\<forall>func. rest_method_wrapper E h ''DELETE'' func ''/'' ds =
                    (Uncaught (Exn AttributeError (''NoneType object has no attribute '' @ p)),
                     ds)))"
proof -
  note old = owner_scope_collection [OF u p, of E ds]
  have get_part: "rest_method_wrapper E h ''GET'' (get E h) [] ds =
              (case get E h None ds of
                 (Inl e, ds') \<Rightarrow> (on_exception e, ds')
               | (Inr v, ds') \<Rightarrow> (Success v, ds'))
            \<and> (\<forall>func. rest_method_wrapper E h ''GET'' func ''/'' ds =
                  (Uncaught (Exn AttributeError (''NoneType object has no attribute '' @ p)), ds))"
    if "permission_of h ''GET'' = Inr PERMISSION_OWNER_USER"
  proof -
    from that have m: "map_of (h_permissions h) ''GET'' = Some PERMISSION_OWNER_USER"
      by (auto simp: permission_of_def split: option.splits)
    from owner_collection_not_denied(4) [OF m u] owner_trailing_slash [OF m u p]
    show ?thesis by blast
  qed
  have delete_part: "rest_method_wrapper E h ''DELETE'' (delete E h) [] ds =
                (case delete E h None ds of
                   (Inl e, ds') \<Rightarrow> (on_exception e, ds')
                 | (Inr v, ds') \<Rightarrow> (Success v, ds'))
              \<and> (\<forall>func. rest_method_wrapper E h ''DELETE'' func ''/'' ds =
                    (Uncaught (Exn AttributeError (''NoneType object has no attribute '' @ p)),
                     ds))"
    if "permission_of h ''DELETE'' = Inr PERMISSION_OWNER_USER"
  proof -
    from that have m: "map_of (h_permissions h) ''DELETE'' = Some PERMISSION_OWNER_USER"
      by (auto simp: permission_of_def split: option.splits)
    from owner_collection_not_denied(4) [OF m u] owner_trailing_slash [OF m u p]
    show ?thesis by blast
  qed
  show ?thesis
  proof (rule conjI; rule impI)
    assume g: "permission_of h ''GET'' = Inr PERMISSION_OWNER_USER"
    note og = old [THEN conjunct1, THEN mp, OF g]
    note gp = get_part [OF g]
    show "rest_method_wrapper E h ''GET'' (get E h) [] ds =
              (case get E h None ds of
                 (Inl e, ds') \<Rightarrow> (on_exception e, ds')
               | (Inr v, ds') \<Rightarrow> (Success v, ds'))
            \<and> (\<forall>query. get_query E h = Inr query \<longrightarrow>
                  (\<exists>base. filter_query E h = Inr base
                     \<and> set (run_query E ds query)
                         = {m \<in> set (run_query E ds base).
                              map_of (ent_values m) p = Some (key_val u)}))
            \<and> (\<forall>v ds'. get E h None ds = (Inr v, ds') \<and> get_callback h = None \<longrightarrow>
                  ds' = ds
                  \<and> (\<exists>results next.
                        v = VDict [(''results'', VList (map VModel results)),
                                   (''next_results_url'', next)]
                        \<and> (\<forall>m\<in>set results.
                              \<exists>b\<in>set ds. m = stored b \<and> owned_by (h_model h) p u b)))
            \<and> (\<forall>func. rest_method_wrapper E h ''GET'' func ''/'' ds =
                  (Uncaught (Exn AttributeError (''NoneType object has no attribute '' @ p)), ds))"
      by (rule conjI [OF gp [THEN conjunct1]
            conjI [OF og [THEN conjunct2, THEN conjunct1]
              conjI [OF og [THEN conjunct2, THEN conjunct2] gp [THEN conjunct2]]]])
  next
    assume a: "permission_of h ''DELETE'' = Inr PERMISSION_OWNER_USER \<and> distinct (map fst ds)"
    then have d: "permission_of h ''DELETE'' = Inr PERMISSION_OWNER_USER" by simp
    note od = old [THEN conjunct2, THEN mp, OF a]
    note dp = delete_part [OF d]
    show "rest_method_wrapper E h ''DELETE'' (delete E h) [] ds =
                (case delete E h None ds of
                   (Inl e, ds') \<Rightarrow> (on_exception e, ds')
                 | (Inr v, ds') \<Rightarrow> (Success v, ds'))
              \<and> (\<forall>r ds' b. delete E h None ds = (r, ds') \<and> b \<in> set ds
                     \<and> \<not> owned_by (h_model h) p u b \<longrightarrow> b \<in> set ds')
              \<and> (\<forall>v ds'. delete E h None ds = (Inr v, ds') \<longrightarrow>
                    ds' = filter (\<lambda>b. \<not> owned_by (h_model h) p u b) ds
                    \<and> (\<exists>del. v = VList (map VModel del)
                          \<and> set del = stored ` {b \<in> set ds. owned_by (h_model h) p u b}))
              \<and> (\<forall>func. rest_method_wrapper E h ''DELETE'' func ''/'' ds =
                    (Uncaught (Exn AttributeError (''NoneType object has no attribute '' @ p)),
                     ds))"
      by (rule conjI [OF dp [THEN conjunct1]
            conjI [OF od [THEN conjunct2, THEN conjunct1]
              conjI [OF od [THEN conjunct2, THEN conjunct2] dp [THEN conjunct2]]]])
  qed
qed

lemma owner_get_ok:
  "get E0 owner_handler None notes_ds
   = (Inr (VDict [(''results'', VList [VModel note1]), (''next_results_url'', VNone)]), notes_ds)"
  by (simp add: get_def get_query_def filter_query_def permission_of_def owner_filter_def
      h_user_owner_property_def order_query_def query_filter_def model_query_def
      GET_missing_def GET_get_def GET_text_def fetch_query_def fetch_limit_def fetch_cursor_def
      fetch_page_def undelivered_def run_query_def sort_by_def cursor_keys_def stored_def
      build_next_query_url_def DEFAULT_MAX_QUERY_RESULTS_def key_val_def
      example_defs permission_defs Let_def)

lemma owner_delete_ok:
  "delete E0 owner_handler None notes_ds
   = (Inr (VList [VModel note1]), [(note2_key, note2), (alice_key, alice), (bob_key, bob)])"
  by (simp add: delete_def permission_of_def owner_filter_def h_user_owner_property_def
      query_filter_def model_query_def delete_pages.simps [of _ _ _ None]
      delete_page_def delete_multi_def key_delete_def map_filter_simps
      fetch_page_def undelivered_def run_query_def sort_by_def cursor_keys_def stored_def
      DEFAULT_MAX_QUERY_RESULTS_def key_val_def example_defs permission_defs Let_def)


theorem owner_scope_witness:
  "h_user owner_handler = Some alice \<and> h_user_owner_property owner_handler = Inr ''owner''
   \<and> rest_method_wrapper E0 owner_handler ''GET'' (get E0 owner_handler) [] notes_ds
       = (Success (VDict [(''results'', VList [VModel note1]), (''next_results_url'', VNone)]),
          notes_ds)
   \<and> rest_method_wrapper E0 owner_handler ''DELETE'' (delete E0 owner_handler) [] notes_ds
       = (Success (VList [VModel note1]),
          [(note2_key, note2), (alice_key, alice), (bob_key, bob)])
   \<and> rest_method_wrapper E0 owner_handler ''GET'' (get E0 owner_handler) ''/'' notes_ds
       = (Uncaught (Exn AttributeError ''NoneType object has no attribute owner''), notes_ds)
   \<and> rest_method_wrapper E0 owner_handler ''DELETE'' (delete E0 owner_handler) ''/'' notes_ds
       = (Uncaught (Exn AttributeError ''NoneType object has no attribute owner''), notes_ds)
   \<and> \<not> owned_by note_cls ''owner'' alice (note2_key, note2)
   \<and> (note2_key, note2) \<in> set [(note2_key, note2), (alice_key, alice), (bob_key, bob)]"
proof -
  have u: "h_user owner_handler = Some alice"
    and p: "h_user_owner_property owner_handler = Inr ''owner''"
    and g: "permission_of owner_handler ''GET'' = Inr PERMISSION_OWNER_USER"
    and d: "permission_of owner_handler ''DELETE'' = Inr PERMISSION_OWNER_USER"
    and m: "h_model owner_handler = note_cls"
    by (simp_all add: owner_handler_def h_user_owner_property_def note_cls_def no_meta_def
        permission_of_def)
  have dist: "distinct (map fst notes_ds)"
    by (simp add: example_defs)
  have b: "(note2_key, note2) \<in> set notes_ds"
    and nb: "\<not> owned_by (h_model owner_handler) ''owner'' alice (note2_key, note2)"
    by (simp_all add: owned_by_def key_val_def example_defs)
  note get_part = owner_scope [OF u p, of E0 notes_ds, THEN conjunct1, THEN mp, OF g]
  note delete_part =
    owner_scope [OF u p, of E0 notes_ds, THEN conjunct2, THEN mp, OF conjI [OF d dist]]
  have 1: "rest_method_wrapper E0 owner_handler ''GET'' (get E0 owner_handler) [] notes_ds
       = (Success (VDict [(''results'', VList [VModel note1]), (''next_results_url'', VNone)]),
          notes_ds)"
    using get_part [THEN conjunct1] by (simp add: owner_get_ok)
  have 2: "rest_method_wrapper E0 owner_handler ''DELETE'' (delete E0 owner_handler) [] notes_ds
       = (Success (VList [VModel note1]),
          [(note2_key, note2), (alice_key, alice), (bob_key, bob)])"
    using delete_part [THEN conjunct1] by (simp add: owner_delete_ok)
  have 3: "rest_method_wrapper E0 owner_handler ''GET'' (get E0 owner_handler) ''/'' notes_ds
       = (Uncaught (Exn AttributeError ''NoneType object has no attribute owner''), notes_ds)"
    using get_part [THEN conjunct2, THEN conjunct2, THEN conjunct2, THEN spec,
        of "get E0 owner_handler"]
    by simp
  have 4: "rest_method_wrapper E0 owner_handler ''DELETE'' (delete E0 owner_handler) ''/'' notes_ds
       = (Uncaught (Exn AttributeError ''NoneType object has no attribute owner''), notes_ds)"
    using delete_part [THEN conjunct2, THEN conjunct2, THEN conjunct2, THEN spec,
        of "delete E0 owner_handler"]
    by simp
  have 5: "(note2_key, note2) \<in> set [(note2_key, note2), (alice_key, alice), (bob_key, bob)]"
    using delete_part [THEN conjunct2, THEN conjunct1, rule_format,
        of "Inr (VList [VModel note1])" "[(note2_key, note2), (alice_key, alice), (bob_key, bob)]"
           "(note2_key, note2)"]
      owner_delete_ok b nb
    by blast
  from nb have nb': "\<not> owned_by note_cls ''owner'' alice (note2_key, note2)" by (simp add: m)
  from u p 1 2 3 4 nb' 5 show ?thesis by (intro conjI)
qed

section \<open>Theorems: encoding an entity and decoding it again\<close>

lemmas round_trip_defs =
  paris_key_def paris_def event_cls_def event1_key_def event1_def event_post_def
  default_model_def decode_key_def class_after_encode_def meta_after_translate_def
  translate_step_def DEFAULT_EXCLUDED_OUTPUT_PROPERTIES_def

lemma paris_encode:
  "json_encode E0 (VModel paris) = Inr (VDict [(''name'', VStr ''Paris''), (''id'', VStr ''paris'')])"
  by (simp add: round_trip_defs example_defs build_defs Let_def)

lemma paris_decode:
  "build_model_from_data E0 city_post (VDict [(''name'', VStr ''Paris''), (''id'', VStr ''paris'')])
     (class_after_encode city_cls) None
   = Inr (Entity city_cls (Some paris_key) [(''name'', VStr ''Paris''), (''age'', VNone)])"
  by (simp add: round_trip_defs example_defs build_defs Let_def)

text \<open>
  The encoder writes only the properties included for output, and the decoder accepts
  only the properties included for input. The city below has a string and an integer
  property; \<^verbatim>\<open>age\<close> is excluded, so the JSON written for the city does not hold
  it, and the entity decoded from that JSON has \<^verbatim>\<open>None\<close> where the city has
  2000.
\<close>

lemma excluded_property_lost:
  "json_encode E0 (VModel paris) = Inr (VDict [(''name'', VStr ''Paris''), (''id'', VStr ''paris'')])
   \<and> build_model_from_data E0 city_post
         (VDict [(''name'', VStr ''Paris''), (''id'', VStr ''paris'')])
         (class_after_encode city_cls) None
       = Inr (Entity city_cls (Some paris_key) [(''name'', VStr ''Paris''), (''age'', VNone)])
   \<and> ent_class paris = city_cls
   \<and> cls_properties city_cls
       = [(''name'', Property StringProperty False), (''age'', Property IntegerProperty False)]
   \<and> map_of (ent_values paris) ''age'' = Some (VInt 2000)"
  using paris_encode paris_decode by (simp add: paris_def city_cls_def)

subsection \<open>The translation of the names, on maps\<close>

lemma map_of_translate_dict:
  "map_of (translate_dict d table dict) = translate_map d table (map_of dict)"
proof (induction table arbitrary: dict)
  case Nil
  show ?case by (simp add: translate_dict_def translate_map_def)
next
  case (Cons p ps)
  let ?src = "case d of Output \<Rightarrow> fst p | Input \<Rightarrow> snd p"
  let ?dst = "case d of Output \<Rightarrow> snd p | Input \<Rightarrow> fst p"
  let ?d1 = "case map_of dict ?src of
               None \<Rightarrow> dict
             | Some v \<Rightarrow> AList.update ?dst v (AList.delete ?src dict)"
  have 1: "translate_dict d (p # ps) dict = translate_dict d ps ?d1"
    by (simp add: translate_dict_def Let_def)
  have 2: "map_of ?d1 = move_key ?src ?dst (map_of dict)"
    by (auto simp: move_key_def update_conv' delete_conv' split: option.splits)
  show ?case
    unfolding 1 Cons.IH 2 by (simp add: translate_map_def)
qed

lemma move_key_commute:
  assumes "a \<noteq> c" "a \<noteq> d" "b \<noteq> c" "b \<noteq> d"
  shows "move_key a b (move_key c d f) = move_key c d (move_key a b f)"
  using assms by (auto simp: move_key_def fun_eq_iff split: option.splits)

lemma move_key_back:
  "f n = None \<Longrightarrow> move_key n o' (move_key o' n f) = f"
  by (auto simp: move_key_def fun_eq_iff split: option.splits)

lemma move_key_map_option:
  "move_key a b (map_option g \<circ> f) = map_option g \<circ> move_key a b f"
  by (auto simp: move_key_def fun_eq_iff split: option.splits)

lemma move_key_upd:
  "k \<noteq> a \<Longrightarrow> k \<noteq> b \<Longrightarrow> move_key a b (f(k \<mapsto> v)) = (move_key a b f)(k \<mapsto> v)"
  by (auto simp: move_key_def fun_eq_iff split: option.splits)

lemma move_key_dom:
  "x \<noteq> a \<Longrightarrow> x \<noteq> b \<Longrightarrow> move_key a b f x = f x"
  by (auto simp: move_key_def split: option.splits)

lemma translate_map_other:
  "x \<notin> fst ` set table \<Longrightarrow> x \<notin> snd ` set table \<Longrightarrow> translate_map d table f x = f x"
proof (induction table arbitrary: f)
  case Nil
  show ?case by (simp add: translate_map_def)
next
  case (Cons p ps)
  from Cons.prems have ne: "x \<noteq> fst p" "x \<noteq> snd p"
    and rest: "x \<notin> fst ` set ps" "x \<notin> snd ` set ps" by auto
  let ?src = "case d of Output \<Rightarrow> fst p | Input \<Rightarrow> snd p"
  let ?dst = "case d of Output \<Rightarrow> snd p | Input \<Rightarrow> fst p"
  from ne have ne': "x \<noteq> ?src" "x \<noteq> ?dst" by (cases d; simp)+
  have "translate_map d (p # ps) f x = translate_map d ps (move_key ?src ?dst f) x"
    by (simp add: translate_map_def)
  also have "\<dots> = move_key ?src ?dst f x" using rest by (rule Cons.IH)
  also have "\<dots> = f x" using ne' by (rule move_key_dom)
  finally show ?case .
qed

lemma translate_map_commute:
  assumes "a \<notin> fst ` set table" "a \<notin> snd ` set table"
    "b \<notin> fst ` set table" "b \<notin> snd ` set table"
  shows "move_key a b (translate_map d table f) = translate_map d table (move_key a b f)"
  using assms
proof (induction table arbitrary: f)
  case Nil
  show ?case by (simp add: translate_map_def)
next
  case (Cons p ps)
  let ?src = "case d of Output \<Rightarrow> fst p | Input \<Rightarrow> snd p"
  let ?dst = "case d of Output \<Rightarrow> snd p | Input \<Rightarrow> fst p"
  from Cons.prems have ne: "a \<noteq> ?src" "a \<noteq> ?dst" "b \<noteq> ?src" "b \<noteq> ?dst"
    by (cases d; auto)+
  have "move_key a b (translate_map d (p # ps) f)
        = move_key a b (translate_map d ps (move_key ?src ?dst f))"
    by (simp add: translate_map_def)
  also have "\<dots> = translate_map d ps (move_key a b (move_key ?src ?dst f))"
    using Cons.prems by (intro Cons.IH) auto
  also have "move_key a b (move_key ?src ?dst f) = move_key ?src ?dst (move_key a b f)"
    using ne by (rule move_key_commute)
  finally show ?case by (simp add: translate_map_def)
qed

lemma translate_map_inverse:
  assumes "distinct (map fst table)" "distinct (map snd table)"
    and "fst ` set table \<inter> snd ` set table = {}"
    and "\<forall>n\<in>snd ` set table. f n = None"
  shows "translate_map Input table (translate_map Output table f) = f"
  using assms
proof (induction table arbitrary: f)
  case Nil
  show ?case by (simp add: translate_map_def)
next
  case (Cons p ps)
  obtain o' n where p: "p = (o', n)" by (cases p)
  from Cons.prems p have fresh: "o' \<notin> fst ` set ps" "n \<notin> snd ` set ps"
    "o' \<notin> snd ` set ps" "n \<notin> fst ` set ps" "o' \<noteq> n"
    by (auto simp: image_iff)
  have "translate_map Input (p # ps) (translate_map Output (p # ps) f)
        = translate_map Input ps (move_key n o' (translate_map Output ps (move_key o' n f)))"
    by (simp add: translate_map_def p)
  also have "move_key n o' (translate_map Output ps (move_key o' n f))
             = translate_map Output ps (move_key n o' (move_key o' n f))"
    using fresh by (intro translate_map_commute) auto
  also have "move_key n o' (move_key o' n f) = f"
    using Cons.prems(4) p by (intro move_key_back) simp
  also have "translate_map Input ps (translate_map Output ps f) = f"
    using Cons.prems by (intro Cons.IH) auto
  finally show ?case .
qed

lemma translate_map_map_option:
  "translate_map d table (map_option g \<circ> f) = map_option g \<circ> translate_map d table f"
  by (induction table arbitrary: f) (simp_all add: translate_map_def move_key_map_option)

lemma translate_map_upd:
  "k \<notin> fst ` set table \<Longrightarrow> k \<notin> snd ` set table \<Longrightarrow>
   translate_map d table (f(k \<mapsto> v)) = (translate_map d table f)(k \<mapsto> v)"
proof (induction table arbitrary: f)
  case Nil
  show ?case by (simp add: translate_map_def)
next
  case (Cons p ps)
  from Cons.prems have ne: "k \<noteq> fst p" "k \<noteq> snd p"
    and rest: "k \<notin> fst ` set ps" "k \<notin> snd ` set ps" by auto
  let ?src = "case d of Output \<Rightarrow> fst p | Input \<Rightarrow> snd p"
  let ?dst = "case d of Output \<Rightarrow> snd p | Input \<Rightarrow> fst p"
  from ne have ne': "k \<noteq> ?src" "k \<noteq> ?dst" by (cases d; simp)+
  have "translate_map d (p # ps) (f(k \<mapsto> v))
        = translate_map d ps (move_key ?src ?dst (f(k \<mapsto> v)))"
    by (simp add: translate_map_def)
  also have "move_key ?src ?dst (f(k \<mapsto> v)) = (move_key ?src ?dst f)(k \<mapsto> v)"
    using ne' by (rule move_key_upd)
  also have "translate_map d ps ((move_key ?src ?dst f)(k \<mapsto> v))
             = (translate_map d ps (move_key ?src ?dst f))(k \<mapsto> v)"
    using rest by (rule Cons.IH)
  also have "translate_map d ps (move_key ?src ?dst f) = translate_map d (p # ps) f"
    by (simp add: translate_map_def)
  finally show ?case .
qed

subsection \<open>The values that are read back\<close>

lemma translate_names_dict:
  "translate_property_names_fn (VDict d) cls dir
   = Inr (VDict (translate_dict dir (table_of cls dir) d))"
  by (simp add: translate_property_names_fn_def table_of_def translate_loop_dict
      translate_dict_def split: option.splits)

lemma sequence_sum_map:
  "(\<And>x. x \<in> set xs \<Longrightarrow> f x = Inr (g x)) \<Longrightarrow> sequence_sum (map f xs) = Inr (map g xs)"
  by (induction xs) simp_all

lemma decode_key_cases: "decode_key E k = VNone \<or> (\<exists>s. decode_key E k = VStr s)"
  by (simp add: decode_key_def split: option.splits key_id.splits)

lemma json_encode_decode_key: "json_encode E (decode_key E k) = Inr (decode_key E k)"
  using decode_key_cases [of E k] by auto

lemma wire_decode_key: "wire E (decode_key E k) = decode_key E k"
  using decode_key_cases [of E k] by auto

lemma round_trips1_encode:
  "round_trips1 E t v \<Longrightarrow> json_encode E v = Inr (wire E v)"
  "round_trips1 E t v \<Longrightarrow> to_dict_val v = v"
  by (cases t; cases v; simp)+

lemma round_trips1_decode:
  assumes "round_trips1 E t v"
  shows "value_to_property E h (wire E v) (Property t rep) = Inr v"
proof (cases t)
  case (KeyProperty kind)
  show ?thesis
  proof (cases v)
    case (VKey k)
    with assms KeyProperty have kr: "key_round_trips E kind k" by simp
    show ?thesis
    proof (cases "kind_map E (key_kind k)")
      case None
      with kr show ?thesis
        by (simp add: KeyProperty VKey key_round_trips_def decode_key_def)
    next
      case (Some mc)
      show ?thesis
      proof (cases "uses_input_id mc")
        case False
        with kr Some show ?thesis
          by (simp add: KeyProperty VKey key_round_trips_def decode_key_def)
      next
        case True
        with kr Some obtain s where s: "key_ident k = StrId s"
          by (cases "key_ident k") (simp_all add: key_round_trips_def)
        then have k: "k = Key (key_kind k) (StrId s)" by (cases k) simp
        from True Some s have w: "decode_key E k = VStr s" by (simp add: decode_key_def)
        show ?thesis
        proof (cases "key_from_urlsafe E (VStr s)")
          case (Inr k')
          with kr Some True s show ?thesis
            by (simp add: KeyProperty VKey key_round_trips_def w)
        next
          case (Inl e)
          with kr Some True s have "exn_cls e = ProtocolBufferDecodeError"
            "kind = Some (key_kind k)" "cls_kind mc = key_kind k"
            by (simp_all add: key_round_trips_def)
          with Inl Some True k show ?thesis
            by (simp add: KeyProperty VKey w)
        qed
      qed
    qed
  qed (use assms KeyProperty in simp_all)
qed (use assms in \<open>cases v; simp\<close>)+

lemma round_trips_encode:
  assumes "round_trips E pr v"
  shows "json_encode E v = Inr (wire E v)" and "to_dict_val v = v"
proof -
  have "json_encode E v = Inr (wire E v) \<and> to_dict_val v = v"
  proof (cases "p_repeated pr")
    case False
    with assms have "round_trips1 E (p_type pr) v" by (simp add: round_trips_def)
    then show ?thesis by (simp add: round_trips1_encode)
  next
    case True
    with assms obtain vs where v: "v = VList vs"
      and all: "\<And>x. x \<in> set vs \<Longrightarrow> round_trips1 E (p_type pr) x"
      by (cases v) (auto simp: round_trips_def list_all_iff)
    have "sequence_sum (map (json_encode E) vs) = Inr (map (wire E) vs)"
      by (rule sequence_sum_map) (rule round_trips1_encode, rule all)
    moreover have "map to_dict_val vs = vs"
      by (rule map_idI) (rule round_trips1_encode, rule all)
    ultimately show ?thesis by (simp add: v)
  qed
  then show "json_encode E v = Inr (wire E v)" and "to_dict_val v = v" by simp_all
qed

lemma round_trips_convert:
  assumes rt: "round_trips E pr v" and d: "map_of d n = Some (wire E v)"
  shows "convert_item E h (VDict d) (n, pr) = Inr (Some (n, v))"
proof -
  obtain t rep where pr: "pr = Property t rep" by (cases pr)
  from d have inn: "n \<in> fst ` set d" by (simp add: in_keys_iff)
  show ?thesis
  proof (cases rep)
    case False
    with rt pr have "round_trips1 E t v" by (simp add: round_trips_def)
    then have "value_to_property E h (wire E v) (Property t rep) = Inr v"
      by (rule round_trips1_decode)
    with False pr inn d show ?thesis by (simp add: convert_item_def)
  next
    case True
    with rt pr obtain vs where v: "v = VList vs"
      and all: "\<And>x. x \<in> set vs \<Longrightarrow> round_trips1 E t x"
      by (cases v) (auto simp: round_trips_def list_all_iff)
    have "sequence_sum (map (\<lambda>x. value_to_property E h x (Property t rep)) (map (wire E) vs))
          = Inr (map (\<lambda>x. x) vs)"
      unfolding map_map
      by (rule sequence_sum_map) (simp, rule round_trips1_decode, rule all)
    with True pr inn d v show ?thesis by (simp add: convert_item_def)
  qed
qed

lemma meta_after_translate_sel:
  "included_input_properties (meta_after_translate m dir) = included_input_properties m"
  "included_output_properties (meta_after_translate m dir) = included_output_properties m"
  "excluded_input_properties (meta_after_translate m dir) = excluded_input_properties m"
  "excluded_output_properties (meta_after_translate m dir) = excluded_output_properties m"
  "included_properties (meta_after_translate m dir) = included_properties m"
  "excluded_properties (meta_after_translate m dir) = excluded_properties m"
  "use_input_id (meta_after_translate m dir) = use_input_id m"
  "user_owner_property (meta_after_translate m dir) = user_owner_property m"
  unfolding meta_after_translate_def
  by (cases "translate_property_names m"; simp)+

lemma meta_after_translate_for:
  "included_for (meta_after_translate m dir) d = included_for m d"
  "excluded_for (meta_after_translate m dir) d = excluded_for m d"
  by (cases d; simp add: included_for_def excluded_for_def meta_after_translate_sel)+

lemma class_after_encode_sel:
  "cls_properties (class_after_encode cls) = cls_properties cls"
  "cls_kind (class_after_encode cls) = cls_kind cls"
  "cls_RESTMeta (class_after_encode cls)
   = map_option (\<lambda>m. meta_after_translate m Output) (cls_RESTMeta cls)"
  by (simp_all add: class_after_encode_def)

lemma uses_input_id_after_encode:
  "uses_input_id (class_after_encode cls) = uses_input_id cls"
  by (cases "cls_RESTMeta cls")
    (simp_all add: uses_input_id_def class_after_encode_sel meta_after_translate_sel)

lemma owner_injection_after_encode:
  "owner_injection h (class_after_encode cls) model kwds = owner_injection h cls model kwds"
  by (cases "cls_RESTMeta cls")
    (simp_all add: owner_injection_def class_after_encode_sel meta_after_translate_sel)

lemma get_included_properties_after_encode:
  "get_included_properties (class_after_encode cls) d = get_included_properties cls d"
proof (cases "cls_RESTMeta cls")
  case None
  then show ?thesis
    unfolding get_included_properties_def class_after_encode_sel by simp
next
  case (Some m)
  then show ?thesis
    unfolding get_included_properties_def class_after_encode_sel
    by (simp only: Let_def option.map option.case meta_after_translate_sel
        meta_after_translate_for)
qed

lemma set_alist_update:
  "set (AList.update k v d) \<subseteq> insert (k, v) (set d)"
  by (induction d) auto

lemma set_translate_dict_values:
  "snd ` set (translate_dict dir table d) \<subseteq> snd ` set d"
proof (induction table arbitrary: d)
  case Nil
  show ?case by (simp add: translate_dict_def)
next
  case (Cons p ps)
  let ?src = "case dir of Output \<Rightarrow> fst p | Input \<Rightarrow> snd p"
  let ?dst = "case dir of Output \<Rightarrow> snd p | Input \<Rightarrow> fst p"
  let ?d1 = "case map_of d ?src of
               None \<Rightarrow> d
             | Some v \<Rightarrow> AList.update ?dst v (AList.delete ?src d)"
  have 1: "translate_dict dir (p # ps) d = translate_dict dir ps ?d1"
    by (simp add: translate_dict_def Let_def)
  have "snd ` set ?d1 \<subseteq> snd ` set d"
  proof (cases "map_of d ?src")
    case None
    then show ?thesis by simp
  next
    case (Some v)
    then have "(?src, v) \<in> set d" by (rule map_of_SomeD)
    then have "v \<in> snd ` set d" by force
    moreover have "set (AList.update ?dst v (AList.delete ?src d)) \<subseteq> insert (?dst, v) (set d)"
      using set_alist_update [of ?dst v "AList.delete ?src d"]
      by (auto simp: AList.delete_eq)
    ultimately have "snd ` set (AList.update ?dst v (AList.delete ?src d)) \<subseteq> snd ` set d"
      by force
    then show ?thesis by (simp add: Some)
  qed
  with Cons.IH [of ?d1] show ?case unfolding 1 by blast
qed

lemma encode_entity:
  assumes k: "ent_key m = Some k"
    and names: "fst ` set (ent_values m) \<subseteq> get_included_properties (ent_class m) Output"
    and vals: "\<And>n v. (n, v) \<in> set (ent_values m) \<Longrightarrow> \<exists>pr. round_trips E pr v"
  shows "\<exists>jd. json_encode E (VModel m) = Inr (VDict jd)
          \<and> map_of jd =
              (map_option (wire E)
                 \<circ> translate_map Output (table_of (ent_class m) Output) (map_of (ent_values m)))
              (''id'' \<mapsto> decode_key E k)"
proof -
  obtain c k0 vs where m: "m = Entity c k0 vs" by (cases m)
  have td: "to_dict m = ent_values m"
  proof -
    have "map (\<lambda>(n, v). (n, to_dict_val v)) vs = vs"
    proof (rule map_idI)
      fix x assume x: "x \<in> set vs"
      obtain n v where nv: "x = (n, v)" by (cases x)
      with x vals [of n v] obtain pr where "round_trips E pr v" by (auto simp: m)
      then have "to_dict_val v = v" by (rule round_trips_encode(2))
      then show "(case x of (n, v) \<Rightarrow> (n, to_dict_val v)) = x" by (simp add: nv)
    qed
    then show ?thesis by (simp add: m)
  qed
  have fl: "filter (\<lambda>(k, v). k \<in> get_included_properties (ent_class m) Output) (ent_values m)
            = ent_values m"
    using names by (auto simp: filter_id_conv)
  define d1 where "d1 = translate_dict Output (table_of (ent_class m) Output) (ent_values m)"
  define d2 where "d2 = AList.update ''id'' (decode_key E k) d1"
  have dm: "default_model E m = Inr (VDict d2)"
    by (simp add: default_model_def Let_def td fl translate_names_dict k d1_def d2_def)
  have enc: "json_encode E v = Inr (wire E v)" if "(n, v) \<in> set d2" for n v
  proof -
    from that set_alist_update [of "''id''" "decode_key E k" d1]
    have "v = decode_key E k \<or> v \<in> snd ` set d1" unfolding d2_def by force
    then show ?thesis
    proof
      assume "v = decode_key E k"
      then show ?thesis by (simp add: json_encode_decode_key wire_decode_key)
    next
      assume "v \<in> snd ` set d1"
      with set_translate_dict_values have "v \<in> snd ` set (ent_values m)"
        unfolding d1_def by blast
      then obtain n' where "(n', v) \<in> set (ent_values m)" by auto
      from vals [OF this] obtain pr where "round_trips E pr v" ..
      then show ?thesis by (rule round_trips_encode(1))
    qed
  qed
  have "sequence_sum (map (\<lambda>(k, v). map_sum id (Pair k) (json_encode E v)) d2)
        = Inr (map (\<lambda>(k, v). (k, wire E v)) d2)"
    by (rule sequence_sum_map) (auto simp: enc)
  then have je: "json_encode E (VModel m) = Inr (VDict (map (\<lambda>(k, v). (k, wire E v)) d2))"
    by (simp add: dm)
  have "map_of (map (\<lambda>(k, v). (k, wire E v)) d2) = map_option (wire E) \<circ> map_of d2"
    by (rule map_of_map)
  also have "map_of d2 = (map_of d1)(''id'' \<mapsto> decode_key E k)"
    by (simp add: d2_def update_conv')
  also have "map_of d1 = translate_map Output (table_of (ent_class m) Output) (map_of (ent_values m))"
    unfolding d1_def by (rule map_of_translate_dict)
  finally have "map_of (map (\<lambda>(k, v). (k, wire E v)) d2) =
              (map_option (wire E)
                 \<circ> translate_map Output (table_of (ent_class m) Output) (map_of (ent_values m)))
              (''id'' \<mapsto> decode_key E k)"
    by (simp add: fun_eq_iff wire_decode_key)
  with je show ?thesis by blast
qed

lemma set_attributes_ok:
  "(\<And>n v. (n, v) \<in> set kwds \<Longrightarrow>
      \<exists>pr. map_of (cls_properties cls) n = Some pr \<and> ndb_validate E pr v = None) \<Longrightarrow>
   \<exists>vals'. set_attributes E cls vals kwds = Inr vals'"
proof (induction kwds arbitrary: vals)
  case Nil
  show ?case by simp
next
  case (Cons a kwds)
  obtain n v where a: "a = (n, v)" by (cases a)
  from Cons.prems [of n v] a obtain pr where
    "map_of (cls_properties cls) n = Some pr" "ndb_validate E pr v = None" by auto
  moreover have "\<exists>vals'. set_attributes E cls (AList.update n v vals) kwds = Inr vals'"
    by (rule Cons.IH) (simp add: Cons.prems)
  ultimately show ?case by (simp add: a)
qed

lemma map_filter_Some: "List.map_filter id (map (\<lambda>p. Some (g p)) xs) = map g xs"
  by (induction xs) (simp_all add: map_filter_simps)

lemma decode_entity:
  assumes dd: "map_of dd = (map_option (wire E) \<circ> f0)(''id'' \<mapsto> idv)"
    and idv: "idv = VNone \<or> (\<exists>s. idv = VStr s)"
    and dp: "distinct (map fst (cls_properties cls))"
    and noid: "''id'' \<notin> fst ` set (cls_properties cls)"
    and dom: "\<And>n. f0 n \<noteq> None \<Longrightarrow> n \<in> fst ` set (cls_properties cls)"
    and vals: "\<And>n pr. (n, pr) \<in> set (cls_properties cls) \<Longrightarrow>
                 \<exists>v. f0 n = Some v \<and> round_trips E pr v \<and> ndb_validate E pr v = None"
    and inp: "fst ` set (cls_properties cls) \<subseteq> get_included_properties cls Input"
    and own: "\<And>kw. owner_injection h cls None kw = kw"
  shows "\<exists>kwds m'. input_properties E h (VDict dd) cls None = Inr kwds
           \<and> new_model E cls kwds = Inr m' \<and> map_of (ent_values m') = f0"
proof -
  define props where "props = cls_properties cls"
  define g where "g = (\<lambda>p :: string \<times> property. (fst p, the (f0 (fst p))))"
  define items where "items = map g props"
  define ps where "ps = (if uses_input_id cls then AList.update ''id'' idv items else items)"
  define kw where "kw = filter (\<lambda>(k, v). k \<in> get_included_properties cls Input) ps"
  define rest where "rest = AList.delete ''id'' kw"
  have conv: "convert_item E h (VDict dd) p = Inr (Some (g p))" if "p \<in> set props" for p
  proof -
    obtain n pr where p: "p = (n, pr)" by (cases p)
    with that vals [of n pr] obtain v where v: "f0 n = Some v" "round_trips E pr v"
      by (auto simp: props_def)
    from that p noid have "n \<noteq> ''id''" by (force simp: props_def)
    with v dd have "map_of dd n = Some (wire E v)" by simp
    with v(2) have "convert_item E h (VDict dd) (n, pr) = Inr (Some (n, v))"
      by (rule round_trips_convert)
    with v p show ?thesis by (simp add: g_def)
  qed
  have "sequence_sum (map (convert_item E h (VDict dd)) props) = Inr (map (\<lambda>p. Some (g p)) props)"
    by (rule sequence_sum_map) (rule conv)
  then have seq: "sequence_sum (map (convert_item E h (VDict dd)) (cls_properties cls))
                  = Inr (map (\<lambda>p. Some (g p)) props)"
    by (simp add: props_def)
  have mf: "List.map_filter id (map (\<lambda>p. Some (g p)) props) = items"
    by (simp add: items_def map_filter_Some)
  have idin: "''id'' \<in> fst ` set dd" "map_of dd ''id'' = Some idv"
    using dd by (simp_all add: in_keys_iff)
  have iid: "input_id cls None (VDict dd) items = Inr ps"
    by (simp add: input_id_def idin ps_def)
  have ip: "input_properties E h (VDict dd) cls None = Inr kw"
    by (simp add: input_properties_def seq mf iid own kw_def)
  have keys_items: "map fst items = map fst props"
    by (simp add: items_def g_def comp_def)
  have d_items: "distinct (map fst items)"
    using dp by (simp add: keys_items props_def)
  then have "distinct (map fst ps)" by (simp add: ps_def distinct_update)
  then have d_kw: "distinct (map fst kw)" by (simp add: kw_def distinct_map_filter)
  then have d_rest: "distinct (map fst rest)" by (simp add: rest_def distinct_delete)
  have sub_ps: "set ps \<subseteq> insert (''id'', idv) (set items)"
    using set_alist_update [of "''id''" idv items] by (auto simp: ps_def)
  then have sub_kw: "set kw \<subseteq> insert (''id'', idv) (set items)"
    by (auto simp: kw_def)
  have noid_items: "''id'' \<notin> fst ` set items"
    using noid keys_items by (metis list.set_map props_def)
  have idp: "map_of (cls_properties cls) ''id'' = None"
    using noid by (simp add: map_of_eq_None_iff)
  have id_arg: "map_of kw ''id'' = None \<or> map_of kw ''id'' = Some idv"
  proof (cases "map_of kw ''id''")
    case None
    then show ?thesis by simp
  next
    case (Some x)
    then have "(''id'', x) \<in> set kw" by (rule map_of_SomeD)
    with sub_kw noid_items have "x = idv" by force
    with Some show ?thesis by simp
  qed
  have key: "\<exists>kk. (case map_of kw ''id'' of
                     None \<Rightarrow> Inr None
                   | Some VNone \<Rightarrow> Inr None
                   | Some v \<Rightarrow> map_sum id Some (key_of_id cls v)) = Inr kk"
    using id_arg idv by auto
  then obtain kk where kk: "(case map_of kw ''id'' of
                     None \<Rightarrow> Inr None
                   | Some VNone \<Rightarrow> Inr None
                   | Some v \<Rightarrow> map_sum id Some (key_of_id cls v)) = Inr kk" ..
  have sub_rest: "set rest \<subseteq> set items"
    using sub_kw by (auto simp: rest_def AList.delete_eq)
  have item_val: "\<exists>pr. map_of (cls_properties cls) n = Some pr \<and> ndb_validate E pr v = None"
    if "(n, v) \<in> set items" for n v
  proof -
    from that obtain pr where p: "(n, pr) \<in> set props" and v: "v = the (f0 n)"
      by (auto simp: items_def g_def)
    from vals [of n pr] p obtain v' where "f0 n = Some v'" "ndb_validate E pr v' = None"
      by (auto simp: props_def)
    moreover from p dp have "map_of (cls_properties cls) n = Some pr"
      by (simp add: props_def)
    ultimately show ?thesis using v by simp
  qed
  have "\<exists>vals'. set_attributes E cls (unset_values cls) rest = Inr vals'"
    by (rule set_attributes_ok) (use sub_rest item_val in blast)
  then obtain vals' where sa: "set_attributes E cls (unset_values cls) rest = Inr vals'" ..
  have nm: "new_model E cls kw = Inr (Entity cls kk vals')"
    by (simp add: new_model_def Let_def idp kk sa [unfolded rest_def])
  have mv: "map_of vals' = map_of (unset_values cls) ++ map_of rest"
    using set_attributes_map_of [OF sa] d_rest by (simp add: map_of_rev_distinct)
  have "map_of vals' n = f0 n" for n
  proof (cases "n \<in> fst ` set (cls_properties cls)")
    case True
    then obtain pr where p: "(n, pr) \<in> set props" by (auto simp: props_def)
    with vals [of n pr] obtain v where v: "f0 n = Some v" by (auto simp: props_def)
    from True noid have ne: "n \<noteq> ''id''" by blast
    from p have "(n, the (f0 n)) \<in> set items" by (force simp: items_def g_def)
    with d_items have "map_of items n = Some (the (f0 n))" by simp
    then have "map_of ps n = Some (the (f0 n))" using ne by (simp add: ps_def update_conv')
    moreover from True inp have "n \<in> get_included_properties cls Input" by auto
    ultimately have "map_of kw n = Some (the (f0 n))"
      by (simp add: kw_def map_of_filter_keys)
    then have "map_of rest n = Some (the (f0 n))" using ne by (simp add: rest_def delete_conv')
    with v show ?thesis by (simp add: mv)
  next
    case False
    with dom [of n] have f: "f0 n = None" by auto
    from False have "n \<notin> fst ` set items"
      using keys_items by (metis list.set_map props_def)
    with sub_rest have "n \<notin> fst ` set rest" by auto
    then have r: "map_of rest n = None" by (simp add: map_of_eq_None_iff)
    from False have "n \<notin> fst ` set (unset_values cls)"
      by (force simp: unset_values_def)
    then have "map_of (unset_values cls) n = None" by (simp add: map_of_eq_None_iff)
    with r f show ?thesis by (simp add: mv map_add_def)
  qed
  then have "map_of (ent_values (Entity cls kk vals')) = f0" by (simp add: fun_eq_iff)
  with ip nm show ?thesis by blast
qed

text \<open>
  What the decoder reads back. Take a stored entity of a class whose properties have
  distinct names, none of them \<^verbatim>\<open>id\<close>, all included for output and for input, in
  which every property has a value that is read back: a string or integer property \<^verbatim>\<open>None\<close> or a
  string or integer, a datetime property a \<^verbatim>\<open>datetime\<close> that the parser reads
  back from its ISO format, a key property \<^verbatim>\<open>None\<close> or a key that the decoder
  reads back, a repeated property a list of such values, each accepted by the validation
  of NDB. When the input translation of the names undoes the output translation and no
  owner is assigned, encoding the entity succeeds, and decoding the JSON written builds a
  new entity in which every property has the value it has in the original.
\<close>

lemma encode_decode_round_trip:
  assumes cls: "ent_class m = cls" and key: "ent_key m = Some k"
    and dp: "distinct (map fst (cls_properties cls))"
    and noid: "''id'' \<notin> fst ` set (cls_properties cls)"
    and names: "fst ` set (ent_values m) = fst ` set (cls_properties cls)"
    and vals: "\<forall>(n, v)\<in>set (ent_values m). \<forall>pr. map_of (cls_properties cls) n = Some pr \<longrightarrow>
                 round_trips E pr v \<and> ndb_validate E pr v = None"
    and out: "fst ` set (cls_properties cls) \<subseteq> get_included_properties cls Output"
    and inp: "fst ` set (cls_properties cls) \<subseteq> get_included_properties cls Input"
    and tr: "inverse_translation cls"
    and own: "no_owner_injection h cls"
  shows "\<exists>j m'. json_encode E (VModel m) = Inr j
           \<and> build_model_from_data E h j (class_after_encode cls) None = Inr m'
           \<and> map_of (ent_values m') = map_of (ent_values m)"
proof -
  define f0 where "f0 = map_of (ent_values m)"
  define T where "T = table_of cls Output"
  let ?cls' = "class_after_encode cls"
  have bound: "\<exists>pr. map_of (cls_properties cls) n = Some pr \<and> round_trips E pr v
                    \<and> ndb_validate E pr v = None"
    if "(n, v) \<in> set (ent_values m)" for n v
  proof -
    from that names have "n \<in> fst ` set (cls_properties cls)" by force
    then obtain pr where "map_of (cls_properties cls) n = Some pr"
      by (auto simp: in_keys_iff)
    with vals that show ?thesis by auto
  qed
  have "\<exists>jd. json_encode E (VModel m) = Inr (VDict jd)
          \<and> map_of jd =
              (map_option (wire E)
                 \<circ> translate_map Output (table_of (ent_class m) Output) (map_of (ent_values m)))
              (''id'' \<mapsto> decode_key E k)"
  proof (rule encode_entity [OF key])
    show "fst ` set (ent_values m) \<subseteq> get_included_properties (ent_class m) Output"
      using names out by (simp add: cls)
    show "\<exists>pr. round_trips E pr v" if "(n, v) \<in> set (ent_values m)" for n v
      using bound [OF that] by blast
  qed
  then obtain jd where je: "json_encode E (VModel m) = Inr (VDict jd)"
    and jd: "map_of jd = (map_option (wire E) \<circ> translate_map Output T f0)
                           (''id'' \<mapsto> decode_key E k)"
    by (auto simp: cls T_def f0_def)
  from tr have t_in: "table_of ?cls' Input = T"
    and dT: "distinct (map fst T)" "distinct (map snd T)"
    and disj: "fst ` set T \<inter> snd ` set T = {}"
    and fresh: "snd ` set T \<inter> fst ` set (cls_properties cls) = {}"
    and idT: "''id'' \<notin> fst ` set T" "''id'' \<notin> snd ` set T"
    by (simp_all add: inverse_translation_def Let_def T_def)
  have none: "\<forall>n\<in>snd ` set T. f0 n = None"
  proof
    fix n assume "n \<in> snd ` set T"
    with fresh have "n \<notin> fst ` set (cls_properties cls)" by blast
    with names show "f0 n = None" by (simp add: f0_def map_of_eq_None_iff)
  qed
  define dd where "dd = translate_dict Input T jd"
  have tn: "translate_property_names_fn (VDict jd) ?cls' Input = Inr (VDict dd)"
    by (simp add: translate_names_dict t_in dd_def)
  have "map_of dd = translate_map Input T (map_of jd)"
    unfolding dd_def by (rule map_of_translate_dict)
  also have "\<dots> = (translate_map Input T (map_option (wire E) \<circ> translate_map Output T f0))
                     (''id'' \<mapsto> decode_key E k)"
    unfolding jd using idT by (rule translate_map_upd)
  also have "translate_map Input T (map_option (wire E) \<circ> translate_map Output T f0)
             = map_option (wire E) \<circ> translate_map Input T (translate_map Output T f0)"
    by (rule translate_map_map_option)
  also have "translate_map Input T (translate_map Output T f0) = f0"
    using dT disj none by (rule translate_map_inverse)
  finally have dd: "map_of dd = (map_option (wire E) \<circ> f0)(''id'' \<mapsto> decode_key E k)" .
  have "\<exists>kwds m'. input_properties E h (VDict dd) ?cls' None = Inr kwds
           \<and> new_model E ?cls' kwds = Inr m' \<and> map_of (ent_values m') = f0"
  proof (rule decode_entity [OF dd decode_key_cases])
    show "distinct (map fst (cls_properties ?cls'))"
      using dp by (simp add: class_after_encode_sel)
    show "''id'' \<notin> fst ` set (cls_properties ?cls')"
      using noid by (simp add: class_after_encode_sel)
    show "n \<in> fst ` set (cls_properties ?cls')" if "f0 n \<noteq> None" for n
      using that names by (simp add: class_after_encode_sel f0_def map_of_eq_None_iff)
    show "\<exists>v. f0 n = Some v \<and> round_trips E pr v \<and> ndb_validate E pr v = None"
      if "(n, pr) \<in> set (cls_properties ?cls')" for n pr
    proof -
      from that have p: "(n, pr) \<in> set (cls_properties cls)"
        by (simp add: class_after_encode_sel)
      with dp have mp: "map_of (cls_properties cls) n = Some pr" by simp
      from p names have "n \<in> fst ` set (ent_values m)" by force
      then obtain v where v: "f0 n = Some v" by (auto simp: f0_def in_keys_iff)
      then have "(n, v) \<in> set (ent_values m)" unfolding f0_def by (rule map_of_SomeD)
      from bound [OF this] mp v show ?thesis by simp
    qed
    show "fst ` set (cls_properties ?cls') \<subseteq> get_included_properties ?cls' Input"
      using inp by (simp add: class_after_encode_sel get_included_properties_after_encode)
    show "owner_injection h ?cls' None kw = kw" for kw
      unfolding owner_injection_after_encode using own
      by (auto simp: owner_injection_def no_owner_injection_def split: option.splits)
  qed
  then obtain kwds m' where "input_properties E h (VDict dd) ?cls' None = Inr kwds"
    "new_model E ?cls' kwds = Inr m'" "map_of (ent_values m') = f0"
    by blast
  then have "build_model_from_data E h (VDict jd) ?cls' None = Inr m'
             \<and> map_of (ent_values m') = map_of (ent_values m)"
    by (simp add: build_model_from_data_unfold tn f0_def)
  with je show ?thesis by blast
qed

lemma event1_encode:
  "json_encode E0 (VModel event1)
   = Inr (VDict [(''title'', VStr ''party''), (''host'', VStr ''K-alice''),
                 (''tags'', VList [VStr ''a'', VStr ''b'']),
                 (''start'', VStr ''2020-01-02T03:04:05''), (''id'', VStr ''K-other'')])"
  by (simp add: round_trip_defs example_defs build_defs Let_def)

lemma event1_round_trip:
  "json_encode E0 (VModel event1)
   = Inr (VDict [(''title'', VStr ''party''), (''host'', VStr ''K-alice''),
                 (''tags'', VList [VStr ''a'', VStr ''b'']),
                 (''start'', VStr ''2020-01-02T03:04:05''), (''id'', VStr ''K-other'')])
   \<and> (\<exists>m'. build_model_from_data E0 event_post
               (VDict [(''title'', VStr ''party''), (''host'', VStr ''K-alice''),
                       (''tags'', VList [VStr ''a'', VStr ''b'']),
                       (''start'', VStr ''2020-01-02T03:04:05''), (''id'', VStr ''K-other'')])
               (class_after_encode event_cls) None = Inr m'
            \<and> map_of (ent_values m') = map_of (ent_values event1))
   \<and> inverse_translation event_cls \<and> no_owner_injection event_post event_cls"
proof -
  have cls: "ent_class event1 = event_cls" and key: "ent_key event1 = Some event1_key"
    by (simp_all add: event1_def)
  have dp: "distinct (map fst (cls_properties event_cls))"
    and noid: "''id'' \<notin> fst ` set (cls_properties event_cls)"
    and names: "fst ` set (ent_values event1) = fst ` set (cls_properties event_cls)"
    by (simp_all add: event1_def event_cls_def)
  have vals: "\<forall>(n, v)\<in>set (ent_values event1).
                \<forall>pr. map_of (cls_properties event_cls) n = Some pr \<longrightarrow>
                  round_trips E0 pr v \<and> ndb_validate E0 pr v = None"
    by (simp add: event1_def event_cls_def round_trips_def key_round_trips_def example_defs
        uses_input_id_def)
  have out: "fst ` set (cls_properties event_cls) \<subseteq> get_included_properties event_cls Output"
    and inp: "fst ` set (cls_properties event_cls) \<subseteq> get_included_properties event_cls Input"
    by (simp_all add: round_trip_defs example_defs build_defs Let_def)
  have tr: "inverse_translation event_cls"
    by (simp add: inverse_translation_def table_of_def round_trip_defs example_defs build_defs
        Let_def)
  have own: "no_owner_injection event_post event_cls"
    by (simp add: no_owner_injection_def event_cls_def no_meta_def)
  from encode_decode_round_trip [OF cls key dp noid names vals out inp tr own]
  obtain j m' where "json_encode E0 (VModel event1) = Inr j"
    "build_model_from_data E0 event_post j (class_after_encode event_cls) None = Inr m'"
    "map_of (ent_values m') = map_of (ent_values event1)"
    by blast
  with event1_encode tr own show ?thesis by auto
qed

subsection \<open>Temporal values\<close>

lemma sequence_sum_raises:
  "x \<in> set xs \<Longrightarrow> f x = Inl e \<Longrightarrow> \<exists>e'. sequence_sum (map f xs) = Inl e'"
  by (induction xs) (auto split: sum.splits)

lemma map_of_to_dict:
  "map_of (to_dict m) n = map_option to_dict_val (map_of (ent_values m) n)"
proof (cases m)
  case (Entity c k vals)
  have "map_of (map (\<lambda>(n, v). (n, to_dict_val v)) vals) = map_option to_dict_val \<circ> map_of vals"
    by (rule map_of_map)
  then show ?thesis by (simp add: Entity)
qed

lemma json_encode_raises:
  assumes inc: "n \<in> get_included_properties (ent_class m) Output"
    and nt: "n \<notin> fst ` set (table_of (ent_class m) Output)"
            "n \<notin> snd ` set (table_of (ent_class m) Output)"
    and nid: "n \<noteq> ''id''"
    and v: "map_of (ent_values m) n = Some v" and tv: "to_dict_val v = v"
    and e: "json_encode E v = Inl e"
  shows "\<exists>e'. json_encode E (VModel m) = Inl e'"
proof (cases "ent_key m")
  case None
  then show ?thesis
    by (simp add: default_model_def Let_def translate_names_dict)
next
  case (Some k)
  define d0 where
    "d0 = filter (\<lambda>(k, v). k \<in> get_included_properties (ent_class m) Output) (to_dict m)"
  define d1 where "d1 = translate_dict Output (table_of (ent_class m) Output) d0"
  define d2 where "d2 = AList.update ''id'' (decode_key E k) d1"
  have "map_of d0 n = Some v"
    by (simp add: d0_def map_of_filter_keys inc map_of_to_dict v tv)
  then have "map_of d1 n = Some v"
    by (simp add: d1_def map_of_translate_dict translate_map_other [OF nt])
  then have "map_of d2 n = Some v" using nid by (simp add: d2_def update_conv')
  then have "(n, v) \<in> set d2" by (rule map_of_SomeD)
  moreover have "(\<lambda>(k, v). map_sum id (Pair k) (json_encode E v)) (n, v) = Inl e"
    by (simp add: e)
  ultimately have "\<exists>e'. sequence_sum (map (\<lambda>(k, v). map_sum id (Pair k) (json_encode E v)) d2)
                        = Inl e'"
    by (rule sequence_sum_raises)
  moreover have "default_model E m = Inr (VDict d2)"
    by (simp add: default_model_def Let_def translate_names_dict Some d0_def d1_def d2_def)
  ultimately show ?thesis by auto
qed

lemma decoded_data:
  assumes key: "ent_key m = Some k"
    and names: "fst ` set (ent_values m) \<subseteq> fst ` set (cls_properties (ent_class m))"
    and out: "fst ` set (ent_values m) \<subseteq> get_included_properties (ent_class m) Output"
    and enc: "\<And>n v. (n, v) \<in> set (ent_values m) \<Longrightarrow> \<exists>pr. round_trips E pr v"
    and tr: "inverse_translation (ent_class m)"
  shows "\<exists>jd dd. json_encode E (VModel m) = Inr (VDict jd)
           \<and> translate_property_names_fn (VDict jd) (class_after_encode (ent_class m)) Input
               = Inr (VDict dd)
           \<and> map_of dd = (map_option (wire E) \<circ> map_of (ent_values m))
                            (''id'' \<mapsto> decode_key E k)"
proof -
  define f0 where "f0 = map_of (ent_values m)"
  define T where "T = table_of (ent_class m) Output"
  let ?cls' = "class_after_encode (ent_class m)"
  have "\<exists>jd. json_encode E (VModel m) = Inr (VDict jd)
          \<and> map_of jd =
              (map_option (wire E)
                 \<circ> translate_map Output (table_of (ent_class m) Output) (map_of (ent_values m)))
              (''id'' \<mapsto> decode_key E k)"
  proof (rule encode_entity [OF key out])
    show "\<exists>pr. round_trips E pr v" if "(n, v) \<in> set (ent_values m)" for n v
      using that by (rule enc)
  qed
  then obtain jd where
    je: "json_encode E (VModel m) = Inr (VDict jd)"
    and jd: "map_of jd = (map_option (wire E) \<circ> translate_map Output T f0)
                           (''id'' \<mapsto> decode_key E k)"
    by (auto simp: T_def f0_def)
  from tr have t_in: "table_of ?cls' Input = T"
    and dT: "distinct (map fst T)" "distinct (map snd T)"
    and disj: "fst ` set T \<inter> snd ` set T = {}"
    and fresh: "snd ` set T \<inter> fst ` set (cls_properties (ent_class m)) = {}"
    and idT: "''id'' \<notin> fst ` set T" "''id'' \<notin> snd ` set T"
    by (simp_all add: inverse_translation_def Let_def T_def)
  have none: "\<forall>n\<in>snd ` set T. f0 n = None"
  proof
    fix n assume "n \<in> snd ` set T"
    with fresh have "n \<notin> fst ` set (cls_properties (ent_class m))" by blast
    with names have "n \<notin> fst ` set (ent_values m)" by blast
    then show "f0 n = None" by (simp add: f0_def map_of_eq_None_iff)
  qed
  define dd where "dd = translate_dict Input T jd"
  have tn: "translate_property_names_fn (VDict jd) ?cls' Input = Inr (VDict dd)"
    by (simp add: translate_names_dict t_in dd_def)
  have "map_of dd = translate_map Input T (map_of jd)"
    unfolding dd_def by (rule map_of_translate_dict)
  also have "\<dots> = (translate_map Input T (map_option (wire E) \<circ> translate_map Output T f0))
                     (''id'' \<mapsto> decode_key E k)"
    unfolding jd using idT by (rule translate_map_upd)
  also have "translate_map Input T (map_option (wire E) \<circ> translate_map Output T f0)
             = map_option (wire E) \<circ> translate_map Input T (translate_map Output T f0)"
    by (rule translate_map_map_option)
  also have "translate_map Input T (translate_map Output T f0) = f0"
    using dT disj none by (rule translate_map_inverse)
  finally have "map_of dd = (map_option (wire E) \<circ> f0)(''id'' \<mapsto> decode_key E k)" .
  with je tn show ?thesis unfolding f0_def by blast
qed

lemma build_raises:
  assumes p: "(n, pr) \<in> set (cls_properties cls)"
    and c: "convert_item E h (VDict dd) (n, pr) = Inl e"
    and t: "translate_property_names_fn data0 cls Input = Inr (VDict dd)"
  shows "\<exists>e'. build_model_from_data E h data0 cls model = Inl e'"
proof -
  from sequence_sum_raises [of "(n, pr)" _ "convert_item E h (VDict dd)", OF p c] obtain e' where
    "sequence_sum (map (convert_item E h (VDict dd)) (cls_properties cls)) = Inl e'" ..
  then have "input_properties E h (VDict dd) cls model = Inl e'"
    by (simp add: input_properties_def)
  with t show ?thesis by (simp add: build_model_from_data_unfold)
qed


text \<open>
  C9. The round trip fails on temporal values, by an asymmetry of the code:
  \<^verbatim>\<open>_value_to_property\<close> hands the value of a \<^verbatim>\<open>DateTimeProperty\<close>, of a
  \<^verbatim>\<open>DateProperty\<close> and of a \<^verbatim>\<open>TimeProperty\<close> to the parser, and
  \<^verbatim>\<open>NDBEncoder.default\<close> handles only \<^verbatim>\<open>datetime\<close>. An entity that holds a
  \<^verbatim>\<open>date\<close> or a \<^verbatim>\<open>time\<close> under a name that is included for output (and
  that the output translation does not touch) is not encoded: \<^verbatim>\<open>json.dumps\<close>
  raises. An entity whose temporal property is unset is encoded, with \<^verbatim>\<open>null\<close>
  for the property, and is not decoded: \<^verbatim>\<open>_value_to_property\<close> hands
  \<^verbatim>\<open>None\<close> to the parser, without the test for \<^verbatim>\<open>None\<close> it has for a key,
  and \<^verbatim>\<open>_build_model_from_data\<close> raises when the parser does.
\<close>

theorem temporal_round_trip_raises:
  "(\<forall>n t. n \<in> get_included_properties (ent_class m) Output
        \<and> n \<notin> fst ` set (table_of (ent_class m) Output)
        \<and> n \<notin> snd ` set (table_of (ent_class m) Output)
        \<and> n \<noteq> ''id''
        \<and> (map_of (ent_values m) n = Some (VDate t) \<or> map_of (ent_values m) n = Some (VTime t)) \<longrightarrow>
        (\<exists>e. json_encode E (VModel m) = Inl e))
   \<and> (\<forall>t. json_encode E (VDate t) = Inl (Exn TypeError ''date is not JSON serializable'')
          \<and> json_encode E (VTime t) = Inl (Exn TypeError ''time is not JSON serializable'')
          \<and> json_encode E (VDateTime t) = Inr (VStr (isoformat E t)))
   \<and> (\<forall>v rep. value_to_property E h v (Property DateTimeProperty rep) = dateutil_parse E v
          \<and> value_to_property E h v (Property DateProperty rep) = dateutil_parse E v
          \<and> value_to_property E h v (Property TimeProperty rep) = dateutil_parse E v)
   \<and> (\<forall>n k pr e0.
        ent_key m = Some k
        \<and> fst ` set (ent_values m) \<subseteq> fst ` set (cls_properties (ent_class m))
        \<and> fst ` set (ent_values m) \<subseteq> get_included_properties (ent_class m) Output
        \<and> (\<forall>(n', v)\<in>set (ent_values m). \<exists>pr'. round_trips E pr' v)
        \<and> inverse_translation (ent_class m)
        \<and> (n, pr) \<in> set (cls_properties (ent_class m))
        \<and> p_type pr \<in> {DateTimeProperty, DateProperty, TimeProperty} \<and> \<not> p_repeated pr
        \<and> n \<noteq> ''id''
        \<and> map_of (ent_values m) n = Some VNone
        \<and> dateutil_parse E VNone = Inl e0 \<longrightarrow>
        (\<exists>j e. json_encode E (VModel m) = Inr j
           \<and> build_model_from_data E h j (class_after_encode (ent_class m)) None = Inl e))"
proof (intro conjI allI impI)
  fix n t
  assume a: "n \<in> get_included_properties (ent_class m) Output
        \<and> n \<notin> fst ` set (table_of (ent_class m) Output)
        \<and> n \<notin> snd ` set (table_of (ent_class m) Output)
        \<and> n \<noteq> ''id''
        \<and> (map_of (ent_values m) n = Some (VDate t) \<or> map_of (ent_values m) n = Some (VTime t))"
  then have inc: "n \<in> get_included_properties (ent_class m) Output"
    and nt: "n \<notin> fst ` set (table_of (ent_class m) Output)"
            "n \<notin> snd ` set (table_of (ent_class m) Output)"
    and nid: "n \<noteq> ''id''" by simp_all
  from a have "map_of (ent_values m) n = Some (VDate t) \<or> map_of (ent_values m) n = Some (VTime t)"
    by simp
  then show "\<exists>e. json_encode E (VModel m) = Inl e"
  proof
    assume "map_of (ent_values m) n = Some (VDate t)"
    then show ?thesis by (rule json_encode_raises [OF inc nt nid]) simp_all
  next
    assume "map_of (ent_values m) n = Some (VTime t)"
    then show ?thesis by (rule json_encode_raises [OF inc nt nid]) simp_all
  qed
next
  fix t
  show "json_encode E (VDate t) = Inl (Exn TypeError ''date is not JSON serializable'')" by simp
  show "json_encode E (VTime t) = Inl (Exn TypeError ''time is not JSON serializable'')" by simp
  show "json_encode E (VDateTime t) = Inr (VStr (isoformat E t))" by simp
next
  fix v rep
  show "value_to_property E h v (Property DateTimeProperty rep) = dateutil_parse E v" by simp
  show "value_to_property E h v (Property DateProperty rep) = dateutil_parse E v" by simp
  show "value_to_property E h v (Property TimeProperty rep) = dateutil_parse E v" by simp
next
  fix n k pr e0
  assume a: "ent_key m = Some k
        \<and> fst ` set (ent_values m) \<subseteq> fst ` set (cls_properties (ent_class m))
        \<and> fst ` set (ent_values m) \<subseteq> get_included_properties (ent_class m) Output
        \<and> (\<forall>(n', v)\<in>set (ent_values m). \<exists>pr'. round_trips E pr' v)
        \<and> inverse_translation (ent_class m)
        \<and> (n, pr) \<in> set (cls_properties (ent_class m))
        \<and> p_type pr \<in> {DateTimeProperty, DateProperty, TimeProperty} \<and> \<not> p_repeated pr
        \<and> n \<noteq> ''id''
        \<and> map_of (ent_values m) n = Some VNone
        \<and> dateutil_parse E VNone = Inl e0"
  let ?cls' = "class_after_encode (ent_class m)"
  from a have key: "ent_key m = Some k"
    and names: "fst ` set (ent_values m) \<subseteq> fst ` set (cls_properties (ent_class m))"
    and out: "fst ` set (ent_values m) \<subseteq> get_included_properties (ent_class m) Output"
    and tr: "inverse_translation (ent_class m)"
    and p: "(n, pr) \<in> set (cls_properties (ent_class m))"
    and ty: "p_type pr \<in> {DateTimeProperty, DateProperty, TimeProperty}" "\<not> p_repeated pr"
    and nid: "n \<noteq> ''id''"
    and v: "map_of (ent_values m) n = Some VNone"
    and e0: "dateutil_parse E VNone = Inl e0"
    by simp_all
  from a have enc: "\<exists>pr'. round_trips E pr' v" if "(n', v) \<in> set (ent_values m)" for n' v
    using that by blast
  have "\<exists>jd dd. json_encode E (VModel m) = Inr (VDict jd)
           \<and> translate_property_names_fn (VDict jd) ?cls' Input = Inr (VDict dd)
           \<and> map_of dd = (map_option (wire E) \<circ> map_of (ent_values m))
                            (''id'' \<mapsto> decode_key E k)"
  proof (rule decoded_data [OF key names out _ tr])
    show "\<exists>pr. round_trips E pr v" if "(n, v) \<in> set (ent_values m)" for n v
      using that by (rule enc)
  qed
  then obtain jd dd where
    je: "json_encode E (VModel m) = Inr (VDict jd)"
    and tn: "translate_property_names_fn (VDict jd) ?cls' Input = Inr (VDict dd)"
    and dd: "map_of dd = (map_option (wire E) \<circ> map_of (ent_values m))
                            (''id'' \<mapsto> decode_key E k)"
    by blast
  from dd nid v have dn: "map_of dd n = Some VNone" by simp
  then have inn: "n \<in> fst ` set dd" by (simp add: in_keys_iff)
  obtain t rep where pr: "pr = Property t rep" by (cases pr)
  with ty have "value_to_property E h VNone pr = dateutil_parse E VNone" by auto
  with dn inn ty(2) e0 have c: "convert_item E h (VDict dd) (n, pr) = Inl e0"
    by (simp add: convert_item_def)
  from p have p': "(n, pr) \<in> set (cls_properties ?cls')"
    by (simp add: class_after_encode_sel)
  from build_raises [OF p' c tn] je
  show "\<exists>j e. json_encode E (VModel m) = Inr j
           \<and> build_model_from_data E h j ?cls' None = Inl e"
    by blast
qed

lemma ada_encode:
  "json_encode E0 (VModel ada) = Inl (Exn TypeError ''date is not JSON serializable'')"
  by (simp add: ada_def ada_key_def person_cls_def round_trip_defs example_defs build_defs Let_def)

lemma event_unset_encode:
  "json_encode E0 (VModel event_unset)
   = Inr (VDict [(''title'', VStr ''party''), (''host'', VStr ''K-alice''),
                 (''tags'', VList [VStr ''a'', VStr ''b'']),
                 (''start'', VNone), (''id'', VStr ''K-other'')])"
  by (simp add: event_unset_def round_trip_defs example_defs build_defs Let_def)

lemma event_unset_decode:
  "build_model_from_data E0 event_post
     (VDict [(''title'', VStr ''party''), (''host'', VStr ''K-alice''),
             (''tags'', VList [VStr ''a'', VStr ''b'']),
             (''start'', VNone), (''id'', VStr ''K-other'')])
     (class_after_encode event_cls) None
   = Inl (Exn AttributeError ''read'')"
  by (simp add: round_trip_defs example_defs build_defs Let_def)

theorem temporal_round_trip_raises_witness:
  "(\<exists>e. json_encode E0 (VModel ada) = Inl e)
   \<and> json_encode E0 (VModel ada) = Inl (Exn TypeError ''date is not JSON serializable'')
   \<and> (\<exists>j e. json_encode E0 (VModel event_unset) = Inr j
         \<and> build_model_from_data E0 event_post j (class_after_encode event_cls) None = Inl e)
   \<and> json_encode E0 (VModel event_unset)
       = Inr (VDict [(''title'', VStr ''party''), (''host'', VStr ''K-alice''),
                     (''tags'', VList [VStr ''a'', VStr ''b'']),
                     (''start'', VNone), (''id'', VStr ''K-other'')])
   \<and> build_model_from_data E0 event_post
         (VDict [(''title'', VStr ''party''), (''host'', VStr ''K-alice''),
                 (''tags'', VList [VStr ''a'', VStr ''b'']),
                 (''start'', VNone), (''id'', VStr ''K-other'')])
         (class_after_encode event_cls) None
       = Inl (Exn AttributeError ''read'')"
proof -
  have a: "''born'' \<in> get_included_properties (ent_class ada) Output
        \<and> ''born'' \<notin> fst ` set (table_of (ent_class ada) Output)
        \<and> ''born'' \<notin> snd ` set (table_of (ent_class ada) Output)
        \<and> ''born'' \<noteq> ''id''
        \<and> (map_of (ent_values ada) ''born'' = Some (VDate 18263)
            \<or> map_of (ent_values ada) ''born'' = Some (VTime 18263))"
    by (simp add: ada_def person_cls_def table_of_def round_trip_defs build_defs Let_def)
  note part1 =
    temporal_round_trip_raises [of ada E0 event_post, THEN conjunct1, rule_format, OF a]
  have tr: "inverse_translation event_cls"
    by (simp add: inverse_translation_def table_of_def round_trip_defs example_defs build_defs
        Let_def)
  have b: "ent_key event_unset = Some event1_key
        \<and> fst ` set (ent_values event_unset) \<subseteq> fst ` set (cls_properties (ent_class event_unset))
        \<and> fst ` set (ent_values event_unset)
            \<subseteq> get_included_properties (ent_class event_unset) Output
        \<and> (\<forall>(n', v)\<in>set (ent_values event_unset). \<exists>pr'. round_trips E0 pr' v)
        \<and> inverse_translation (ent_class event_unset)
        \<and> (''when'', Property DateTimeProperty False) \<in> set (cls_properties (ent_class event_unset))
        \<and> p_type (Property DateTimeProperty False) \<in> {DateTimeProperty, DateProperty, TimeProperty}
        \<and> \<not> p_repeated (Property DateTimeProperty False)
        \<and> ''when'' \<noteq> ''id''
        \<and> map_of (ent_values event_unset) ''when'' = Some VNone
        \<and> dateutil_parse E0 VNone = Inl (Exn AttributeError ''read'')"
  proof (intro conjI)
    show "\<forall>(n', v)\<in>set (ent_values event_unset). \<exists>pr'. round_trips E0 pr' v"
    proof -
      have "round_trips E0 (Property StringProperty False) (VStr ''party'')"
        "round_trips E0 (Property StringProperty False) VNone"
        "round_trips E0 (Property (KeyProperty (Some ''User'')) False) (VKey alice_key)"
        "round_trips E0 (Property StringProperty True) (VList [VStr ''a'', VStr ''b''])"
        by (simp_all add: round_trips_def key_round_trips_def example_defs uses_input_id_def)
      then show ?thesis by (auto simp: event_unset_def)
    qed
    show "inverse_translation (ent_class event_unset)" using tr by (simp add: event_unset_def)
  qed (simp_all add: event_unset_def round_trip_defs example_defs build_defs Let_def)
  note part2 =
    temporal_round_trip_raises [of event_unset E0 event_post, THEN conjunct2, THEN conjunct2,
      THEN conjunct2, rule_format, OF b]
  have c: "ent_class event_unset = event_cls" by (simp add: event_unset_def)
  from part1 ada_encode part2 [unfolded c] event_unset_encode event_unset_decode
  show ?thesis by (intro conjI)
qed

end
